theory Spec2Isabelle
  imports Main "HOL-Library.Word"
begin

unbundle bit_operations_syntax

section \<open>Machine types and error numbers\<close>

type_synonym u8 = "8 word"
type_synonym u16 = "16 word"
type_synonym u32 = "32 word"
type_synonym u64 = "64 word"

text \<open>
  The errno values come from the kernel's errno headers; the functions below return them
  negated, as C \<open>int\<close> results.
\<close>

definition EIO :: int where "EIO = 5"
definition EOPNOTSUPP :: int where "EOPNOTSUPP = 95"
definition ENETDOWN :: int where "ENETDOWN = 100"

section \<open>The TLV design-parameter decoder\<close>

datatype ef100_tlv_state_machine =
  EF100_TLV_TYPE | EF100_TLV_TYPE_CONT | EF100_TLV_LENGTH | EF100_TLV_VALUE

text \<open>
  \<open>struct ef100_tlv_state\<close>. The fields carry the prefix \<open>tlv_\<close>; the C names are
  \<open>state\<close>, \<open>value\<close>, \<open>value_offset\<close>, \<open>type\<close> and \<open>len\<close>.
\<close>

record ef100_tlv_state =
  tlv_state :: ef100_tlv_state_machine
  tlv_value :: u64
  tlv_value_offset :: u32
  tlv_type :: u16
  tlv_len :: u8

text \<open>\<open>struct ef100_tlv_state reader = {}\<close>: every field zero, the state \<open>EF100_TLV_TYPE\<close>.\<close>

definition tlv_reader_init :: ef100_tlv_state where
  "tlv_reader_init =
     \<lparr>tlv_state = EF100_TLV_TYPE, tlv_value = 0, tlv_value_offset = 0,
      tlv_type = 0, tlv_len = 0\<rparr>"

text \<open>
  \<open>ef100_tlv_feed\<close>: the return code and the updated reader. The C \<open>default\<close> branch
  (\<open>-EIO\<close>) belongs to values outside the enumeration; the datatype has none.
  In \<open>EF100_TLV_TYPE_CONT\<close> the byte is promoted to \<open>int\<close>, shifted and stored back
  into the 16-bit field; in \<open>EF100_TLV_VALUE\<close> the shift count is the 32-bit product
  \<open>value_offset * 8\<close>.
\<close>

fun ef100_tlv_feed :: "ef100_tlv_state \<Rightarrow> u8 \<Rightarrow> int \<times> ef100_tlv_state" where
  "ef100_tlv_feed st byte =
     (case tlv_state st of
        EF100_TLV_TYPE \<Rightarrow>
          (0, st\<lparr>tlv_type := ucast (byte AND 0x7f),
                 tlv_state := (if byte AND 0x80 \<noteq> 0 then EF100_TLV_TYPE_CONT
                               else EF100_TLV_LENGTH),
                 tlv_value := 0,
                 tlv_value_offset := 0\<rparr>)
      | EF100_TLV_TYPE_CONT \<Rightarrow>
          (0, st\<lparr>tlv_type := tlv_type st OR push_bit 7 (ucast byte),
                 tlv_state := EF100_TLV_LENGTH\<rparr>)
      | EF100_TLV_LENGTH \<Rightarrow>
          (let st1 = st\<lparr>tlv_len := byte\<rparr> in
           if tlv_len st1 > 8 then (- EOPNOTSUPP, st1)
           else (0, st1\<lparr>tlv_state := (if tlv_len st1 \<noteq> 0 then EF100_TLV_VALUE
                                        else EF100_TLV_TYPE)\<rparr>))
      | EF100_TLV_VALUE \<Rightarrow>
          (let st1 = st\<lparr>tlv_value := tlv_value st OR
                          push_bit (unat (tlv_value_offset st * 8)) (ucast byte)\<rparr>;
               st2 = st1\<lparr>tlv_value_offset := tlv_value_offset st1 + 1\<rparr>
           in (0, if tlv_value_offset st2 \<ge> ucast (tlv_len st2)
                  then st2\<lparr>tlv_state := EF100_TLV_TYPE\<rparr> else st2)))"

text \<open>
  The byte loop of \<open>ef100_check_design_params\<close> without the parameter interpreter:
  bytes are fed in order; a byte that returns 0 and leaves the reader in
  \<open>EF100_TLV_TYPE\<close> completes a triple, which is recorded as \<open>(type, value)\<close> at the
  point where the caller hands the reader to the interpreter; a nonzero return code stops
  the loop. The result is the return code, the reader and the triples recorded.
\<close>

fun tlv_feed_bytes ::
  "ef100_tlv_state \<Rightarrow> u8 list \<Rightarrow> int \<times> ef100_tlv_state \<times> (u16 \<times> u64) list" where
  "tlv_feed_bytes rd [] = (0, rd, [])"
| "tlv_feed_bytes rd (b # bs) =
     (case ef100_tlv_feed rd b of (rc, rd') \<Rightarrow>
        if rc \<noteq> 0 then (rc, rd', [])
        else (case tlv_feed_bytes rd' bs of (rc', rd'', es) \<Rightarrow>
                (rc', rd'',
                 (if tlv_state rd' = EF100_TLV_TYPE then [(tlv_type rd', tlv_value rd')]
                  else []) @ es)))"

text \<open>The decoder state in which each byte of the loop is consumed.\<close>

fun tlv_feed_states :: "ef100_tlv_state \<Rightarrow> u8 list \<Rightarrow> ef100_tlv_state_machine list" where
  "tlv_feed_states rd [] = []"
| "tlv_feed_states rd (b # bs) =
     tlv_state rd #
       (case ef100_tlv_feed rd b of (rc, rd') \<Rightarrow>
          if rc \<noteq> 0 then [] else tlv_feed_states rd' bs)"

subsection \<open>Well-formed triples and their encoding\<close>

text \<open>
  The wire format the decoder reads, stated on its own: a triple has a type, written in
  one byte (below \<open>0x80\<close>) or in two (low seven bits with bit 7 set, then bits 7 to 14),
  a length byte, and that many value bytes, least significant first.
\<close>

record tlv_triple =
  t_type :: u16
  t_cont :: bool
  t_bytes :: "u8 list"

definition tlv_wf :: "tlv_triple \<Rightarrow> bool" where
  "tlv_wf t \<longleftrightarrow>
     length (t_bytes t) \<le> 8 \<and>
     (if t_cont t then t_type t < 0x8000 else t_type t < 0x80)"

definition tlv_encode :: "tlv_triple \<Rightarrow> u8 list" where
  "tlv_encode t =
     (if t_cont t
      then [ucast (t_type t AND 0x7f) OR 0x80, ucast (drop_bit 7 (t_type t))]
      else [ucast (t_type t)])
     @ [of_nat (length (t_bytes t))] @ t_bytes t"

text \<open>The number a little-endian byte string denotes, as a 64-bit value.\<close>

fun le_value :: "u8 list \<Rightarrow> u64" where
  "le_value [] = 0"
| "le_value (b # bs) = ucast b + 256 * le_value bs"

definition tlv_decoded :: "tlv_triple \<Rightarrow> u16 \<times> u64" where
  "tlv_decoded t = (t_type t, le_value (t_bytes t))"

section \<open>The design-parameter interpreter and scan\<close>

text \<open>
  The design-parameter type codes (\<open>ESE_EF100_DP_GZ_*\<close>, from the register header), the
  minimum DMA queue size and the kernel's \<open>GSO_MAX_SIZE\<close> are declared outside the file
  at hand, so they are parameters of the model. \<open>HAVE_GSO_MAX_SEGS\<close> tells whether the
  assignment to \<open>gso_max_segs\<close> is compiled in
  (\<open>!defined(EFX_USE_KCOMPAT) || defined(EFX_HAVE_GSO_MAX_SEGS)\<close>).
\<close>

record dp_consts =
  ESE_EF100_DP_GZ_PAD :: int
  ESE_EF100_DP_GZ_PARTIAL_TSTAMP_SUB_NANO_BITS :: int
  ESE_EF100_DP_GZ_EVQ_UNSOL_CREDIT_SEQ_BITS :: int
  ESE_EF100_DP_GZ_NMMU_GROUP_SIZE :: int
  ESE_EF100_DP_GZ_RX_L4_CSUM_PROTOCOLS :: int
  ESE_EF100_DP_GZ_TSO_MAX_HDR_LEN :: int
  ESE_EF100_DP_GZ_TSO_MAX_HDR_NUM_SEGS :: int
  ESE_EF100_DP_GZ_RXQ_SIZE_GRANULARITY :: int
  ESE_EF100_DP_GZ_TXQ_SIZE_GRANULARITY :: int
  ESE_EF100_DP_GZ_TSO_MAX_PAYLOAD_LEN :: int
  ESE_EF100_DP_GZ_TSO_MAX_PAYLOAD_NUM_SEGS :: int
  ESE_EF100_DP_GZ_TSO_MAX_NUM_FRAMES :: int
  ESE_EF100_DP_GZ_COMPAT :: int
  ESE_EF100_DP_GZ_MEM2MEM_MAX_LEN :: int
  ESE_EF100_DP_GZ_EVQ_TIMER_TICK_NANOS :: int
  ESE_EF100_DP_GZ_NMMU_PAGE_SIZES :: int
  ESE_EF100_DP_GZ_VI_STRIDES :: int
  ESE_EF100_DP_GZ_RX_MAX_RUNT :: int
  EFX_MIN_DMAQ_SIZE :: u64
  GSO_MAX_SIZE :: u64
  HAVE_GSO_MAX_SEGS :: bool

text \<open>The case labels of the \<open>switch\<close>, in source order. C requires them distinct.\<close>

definition dp_case_labels :: "dp_consts \<Rightarrow> int list" where
  "dp_case_labels c =
     [ESE_EF100_DP_GZ_PAD c,
      ESE_EF100_DP_GZ_PARTIAL_TSTAMP_SUB_NANO_BITS c,
      ESE_EF100_DP_GZ_EVQ_UNSOL_CREDIT_SEQ_BITS c,
      ESE_EF100_DP_GZ_NMMU_GROUP_SIZE c,
      ESE_EF100_DP_GZ_RX_L4_CSUM_PROTOCOLS c,
      ESE_EF100_DP_GZ_TSO_MAX_HDR_LEN c,
      ESE_EF100_DP_GZ_TSO_MAX_HDR_NUM_SEGS c,
      ESE_EF100_DP_GZ_RXQ_SIZE_GRANULARITY c,
      ESE_EF100_DP_GZ_TXQ_SIZE_GRANULARITY c,
      ESE_EF100_DP_GZ_TSO_MAX_PAYLOAD_LEN c,
      ESE_EF100_DP_GZ_TSO_MAX_PAYLOAD_NUM_SEGS c,
      ESE_EF100_DP_GZ_TSO_MAX_NUM_FRAMES c,
      ESE_EF100_DP_GZ_COMPAT c,
      ESE_EF100_DP_GZ_MEM2MEM_MAX_LEN c,
      ESE_EF100_DP_GZ_EVQ_TIMER_TICK_NANOS c,
      ESE_EF100_DP_GZ_NMMU_PAGE_SIZES c,
      ESE_EF100_DP_GZ_VI_STRIDES c,
      ESE_EF100_DP_GZ_RX_MAX_RUNT c]"

text \<open>The labels whose cases can return an error.\<close>

definition dp_fatal_labels :: "dp_consts \<Rightarrow> int list" where
  "dp_fatal_labels c =
     [ESE_EF100_DP_GZ_TSO_MAX_HDR_NUM_SEGS c, ESE_EF100_DP_GZ_RXQ_SIZE_GRANULARITY c,
      ESE_EF100_DP_GZ_TXQ_SIZE_GRANULARITY c, ESE_EF100_DP_GZ_COMPAT c]"

text \<open>
  The fields of \<open>nic_data\<close> and of the net device that the interpreter writes. Each holds
  the result of \<open>min_t(u64, ...)\<close> converted to the field's width.
\<close>

record dp_state =
  tso_max_hdr_len :: u16
  tso_max_payload_len :: u32
  tso_max_payload_num_segs :: u16
  tso_max_frames :: u16
  gso_max_size :: u32
  gso_max_segs :: u16

text \<open>
  \<open>ef100_process_design_param\<close>: the \<open>switch\<close> on \<open>reader->type\<close> (promoted to
  \<open>int\<close>) as a chain of tests in source order. Log messages are not modelled. The
  granularity test keeps the source's order of evaluation: zero, then larger than
  \<open>EFX_MIN_DMAQ_SIZE\<close>, then the remainder by the value truncated to 32 bits.
\<close>

definition ef100_process_design_param ::
  "dp_consts \<Rightarrow> dp_state \<Rightarrow> ef100_tlv_state \<Rightarrow> int \<times> dp_state" where
  "ef100_process_design_param c nic reader =
     (let ty = uint (tlv_type reader); v = tlv_value reader in
      if ty = ESE_EF100_DP_GZ_PAD c then (0, nic)
      else if ty = ESE_EF100_DP_GZ_PARTIAL_TSTAMP_SUB_NANO_BITS c then (0, nic)
      else if ty = ESE_EF100_DP_GZ_EVQ_UNSOL_CREDIT_SEQ_BITS c then (0, nic)
      else if ty = ESE_EF100_DP_GZ_NMMU_GROUP_SIZE c then (0, nic)
      else if ty = ESE_EF100_DP_GZ_RX_L4_CSUM_PROTOCOLS c then (0, nic)
      else if ty = ESE_EF100_DP_GZ_TSO_MAX_HDR_LEN c then
        (0, nic\<lparr>tso_max_hdr_len := ucast (min v 0xffff)\<rparr>)
      else if ty = ESE_EF100_DP_GZ_TSO_MAX_HDR_NUM_SEGS c then
        (if v = 0 then (- EOPNOTSUPP, nic) else (0, nic))
      else if ty = ESE_EF100_DP_GZ_RXQ_SIZE_GRANULARITY c
            \<or> ty = ESE_EF100_DP_GZ_TXQ_SIZE_GRANULARITY c then
        (if v = 0 \<or> v > EFX_MIN_DMAQ_SIZE c
            \<or> EFX_MIN_DMAQ_SIZE c mod ucast (ucast v :: u32) \<noteq> 0
         then (- EOPNOTSUPP, nic) else (0, nic))
      else if ty = ESE_EF100_DP_GZ_TSO_MAX_PAYLOAD_LEN c then
        (let nic1 = nic\<lparr>tso_max_payload_len := ucast (min v (GSO_MAX_SIZE c))\<rparr>
         in (0, nic1\<lparr>gso_max_size := tso_max_payload_len nic1\<rparr>))
      else if ty = ESE_EF100_DP_GZ_TSO_MAX_PAYLOAD_NUM_SEGS c then
        (let nic1 = nic\<lparr>tso_max_payload_num_segs := ucast (min v 0xffff)\<rparr>
         in (0, if HAVE_GSO_MAX_SEGS c
                then nic1\<lparr>gso_max_segs := tso_max_payload_num_segs nic1\<rparr> else nic1))
      else if ty = ESE_EF100_DP_GZ_TSO_MAX_NUM_FRAMES c then
        (0, nic\<lparr>tso_max_frames := ucast (min v 0xffff)\<rparr>)
      else if ty = ESE_EF100_DP_GZ_COMPAT c then
        (if v \<noteq> 0 then (- EOPNOTSUPP, nic) else (0, nic))
      else if ty = ESE_EF100_DP_GZ_MEM2MEM_MAX_LEN c then (0, nic)
      else if ty = ESE_EF100_DP_GZ_EVQ_TIMER_TICK_NANOS c then (0, nic)
      else if ty = ESE_EF100_DP_GZ_NMMU_PAGE_SIZES c then (0, nic)
      else if ty = ESE_EF100_DP_GZ_VI_STRIDES c then (0, nic)
      else if ty = ESE_EF100_DP_GZ_RX_MAX_RUNT c then (0, nic)
      else (0, nic))"




subsection \<open>The stream and its completed triples\<close>




section \<open>Reboot detection\<close>

text \<open>
  Modelled from the spec: the device states (\<open>efx->state\<close>, declared in a header not at
  hand) are the spec's reset states; \<open>STATE_DISABLED\<close> and \<open>STATE_NET_DOWN\<close> are the two
  the source names. \<open>warm_boot_count\<close> is the spec's \<open>u32\<close>.
\<close>

datatype nic_state =
  STATE_PROBED | STATE_NET_UP | STATE_NET_DOWN | STATE_DISABLED | STATE_RESETTING

record mcdi_nic =
  efx_state :: nic_state
  warm_boot_count :: u32

text \<open>
  \<open>ef100_get_warm_boot_count\<close>: \<open>reg\<close> is the value read from
  \<open>ER_GZ_MC_SFT_STATUS\<close>; \<open>EFX_WORD_1\<close> is its upper and \<open>EFX_WORD_0\<close> its lower
  16 bits. The result is a C \<open>int\<close>.
\<close>

definition ef100_get_warm_boot_count :: "u32 \<Rightarrow> mcdi_nic \<Rightarrow> int \<times> mcdi_nic" where
  "ef100_get_warm_boot_count reg efx =
     (if reg = 0xffffffff then (- ENETDOWN, efx\<lparr>efx_state := STATE_DISABLED\<rparr>)
      else (if (ucast (drop_bit 16 reg) :: u16) = 0xb007
            then uint (ucast reg :: u16) else - EIO, efx))"

text \<open>
  \<open>ef100_mcdi_poll_reboot\<close>. The comparison of the non-negative \<open>rc\<close> with the
  unsigned counter is a comparison of their values.
\<close>

definition ef100_mcdi_poll_reboot :: "u32 \<Rightarrow> mcdi_nic \<Rightarrow> int \<times> mcdi_nic" where
  "ef100_mcdi_poll_reboot reg efx =
     (case ef100_get_warm_boot_count reg efx of (rc, efx1) \<Rightarrow>
        if rc < 0 then (0, efx1)
        else if rc = uint (warm_boot_count efx1) then (0, efx1)
        else (- EIO, efx1\<lparr>warm_boot_count := word_of_int rc\<rparr>))"

section \<open>The event-queue dispatcher\<close>

text \<open>
  The event layout (\<open>ESF_GZ_*\<close>: lowest bit number and width of a field) and the event
  type codes (\<open>ESE_GZ_EF100_EV_*\<close>) come from the register header, which is not at hand:
  they are parameters.
\<close>

record ev_consts =
  ESF_GZ_EV_RXPKTS_PHASE_LBN :: nat
  ESF_GZ_EV_RXPKTS_PHASE_WIDTH :: nat
  ESF_GZ_E_TYPE_LBN :: nat
  ESF_GZ_E_TYPE_WIDTH :: nat
  ESE_GZ_EF100_EV_RX_PKTS :: int
  ESE_GZ_EF100_EV_MCDI :: int
  ESE_GZ_EF100_EV_TX_COMPLETION :: int
  ESE_GZ_EF100_EV_DRIVER :: int

text \<open>
  Modelled from the spec: \<open>EFX_QWORD_FIELD\<close> (the bit-field header is not at hand) reads
  the bit-packed field of the 8-byte event that starts at bit \<open>lbn\<close> and is \<open>width\<close>
  bits wide.
\<close>

definition EFX_QWORD_FIELD :: "u64 \<Rightarrow> nat \<Rightarrow> nat \<Rightarrow> u64" where
  "EFX_QWORD_FIELD q lbn width = take_bit width (drop_bit lbn q)"

record efx_channel =
  enabled :: bool
  channel :: nat
  eventq_read_ptr :: u32
  eventq_mask :: u32

text \<open>
  Modelled from the spec: \<open>efx_event\<close> (declared in a header not at hand) is the ring
  entry at \<open>read_ptr & mask\<close>. The ring is the memory the channel's event queue occupies,
  a map from entry index to the 8-byte entry, fixed for the length of one call.
\<close>

definition efx_event :: "(u32 \<Rightarrow> u64) \<Rightarrow> efx_channel \<Rightarrow> u32 \<Rightarrow> u64" where
  "efx_event ring ch index = ring (index AND eventq_mask ch)"

text \<open>
  The two MCDI event handlers live outside the file. \<open>efx_mcdi_process_event\<close> tells
  whether it claimed the event; \<open>efx_mcdi_port_process_event_common\<close> is given the event
  and the budget and yields whether it claimed the event and the value it leaves in
  \<open>rc\<close> (0 if it does not write it).
\<close>

record ev_env =
  efx_mcdi_process_event :: "u64 \<Rightarrow> bool"
  efx_mcdi_port_process_event_common :: "u64 \<Rightarrow> int \<Rightarrow> bool \<times> int"

text \<open>
  \<open>ef100_ev_mcdi\<close>: the second handler runs only if the first did not claim the event
  (\<open>&&\<close>); the message for an unclaimed event is not modelled.
\<close>

definition ef100_ev_mcdi :: "ev_env \<Rightarrow> u64 \<Rightarrow> int \<Rightarrow> int" where
  "ef100_ev_mcdi env p_event quota =
     (let rc = (if efx_mcdi_process_event env p_event then 0
                else snd (efx_mcdi_port_process_event_common env p_event quota));
          spent = 0
      in if rc > 0 then spent + rc
         else if rc < 0 then spent + 1
         else spent)"

text \<open>
  What one call does, in order: each entry that reaches the \<open>switch\<close> is recorded with
  the read pointer it was read at and the phase \<open>evq_phase\<close> expected at that moment;
  in polled mode each write of the prime register (\<open>ef100_ev_read_ack\<close>) is recorded
  with the channel and the masked read pointer.
\<close>

datatype ev_action = EV_DISPATCH u32 u64 bool | EVQ_INT_PRIME nat u32

definition ev_phase_of :: "ev_consts \<Rightarrow> u64 \<Rightarrow> bool" where
  "ev_phase_of c p_event \<longleftrightarrow>
     EFX_QWORD_FIELD p_event (ESF_GZ_EV_RXPKTS_PHASE_LBN c)
       (ESF_GZ_EV_RXPKTS_PHASE_WIDTH c) \<noteq> 0"

definition ev_type_of :: "ev_consts \<Rightarrow> u64 \<Rightarrow> int" where
  "ev_type_of c p_event =
     uint (EFX_QWORD_FIELD p_event (ESF_GZ_E_TYPE_LBN c) (ESF_GZ_E_TYPE_WIDTH c))"

text \<open>
  The \<open>switch (ev_type)\<close>: the value of \<open>spent\<close> after it. The handlers for RX and TX
  events work on queues outside this model; the two logging cases change nothing.
\<close>

definition ev_switch :: "ev_consts \<Rightarrow> ev_env \<Rightarrow> u64 \<Rightarrow> int \<Rightarrow> int \<Rightarrow> int" where
  "ev_switch c env p_event quota spent =
     (let ev_type = ev_type_of c p_event in
      if ev_type = ESE_GZ_EF100_EV_RX_PKTS c then spent + 1
      else if ev_type = ESE_GZ_EF100_EV_MCDI c
        then spent + ef100_ev_mcdi env p_event (quota - spent)
      else if ev_type = ESE_GZ_EF100_EV_TX_COMPLETION c then spent
      else if ev_type = ESE_GZ_EF100_EV_DRIVER c then spent
      else spent)"

text \<open>
  The \<open>while (spent < quota)\<close> loop. \<open>polled\<close> says that the busy-poll blocks are
  compiled in (\<open>EFX_NOT_UPSTREAM\<close> and \<open>CONFIG_SFC_BUSYPOLL\<close>) and the interrupt mode is
  \<open>EFX_INT_MODE_POLLED\<close>. Events that spend nothing do not bring the loop closer to
  its quota, so iterations are counted down from \<open>fuel\<close>; \<open>None\<close> means that the fuel
  ran out with the loop still running. The result is \<open>spent\<close>, \<open>evq_phase\<close>,
  \<open>read_ptr\<close> and the actions recorded.
\<close>

definition ev_loop_continues ::
  "ev_consts \<Rightarrow> (u32 \<Rightarrow> u64) \<Rightarrow> efx_channel \<Rightarrow> int \<Rightarrow> int \<Rightarrow> bool \<Rightarrow> u32 \<Rightarrow> bool" where
  "ev_loop_continues c ring ch quota spent evq_phase read_ptr \<longleftrightarrow>
     spent < quota \<and> ev_phase_of c (efx_event ring ch read_ptr) = evq_phase"

fun ev_process_loop ::
  "ev_consts \<Rightarrow> ev_env \<Rightarrow> bool \<Rightarrow> (u32 \<Rightarrow> u64) \<Rightarrow> efx_channel \<Rightarrow> int \<Rightarrow> nat
     \<Rightarrow> int \<Rightarrow> bool \<Rightarrow> u32 \<Rightarrow> (int \<times> bool \<times> u32 \<times> ev_action list) option" where
  "ev_process_loop c env polled ring ch quota 0 spent evq_phase read_ptr =
     (if ev_loop_continues c ring ch quota spent evq_phase read_ptr then None
      else Some (spent, evq_phase, read_ptr, []))"
| "ev_process_loop c env polled ring ch quota (Suc fuel) spent evq_phase read_ptr =
     (if ev_loop_continues c ring ch quota spent evq_phase read_ptr then
        (let p_event = efx_event ring ch read_ptr;
             spent' = ev_switch c env p_event quota spent;
             read_ptr' = read_ptr + 1;
             evq_phase' = (if read_ptr' AND eventq_mask ch = 0 then \<not> evq_phase
                           else evq_phase);
             acts = EV_DISPATCH read_ptr p_event evq_phase #
                      (if polled \<and> read_ptr' mod 512 = 0
                       then [EVQ_INT_PRIME (channel ch) (read_ptr' AND eventq_mask ch)]
                       else [])
         in map_option (\<lambda>(s, ph, rp, as). (s, ph, rp, acts @ as))
              (ev_process_loop c env polled ring ch quota fuel spent' evq_phase' read_ptr'))
      else Some (spent, evq_phase, read_ptr, []))"

text \<open>
  \<open>ef100_ev_process\<close>. \<open>evq_phases\<close> is the bitmap of \<open>nic_data\<close>, indexed by channel
  number; \<open>change_bit\<close> toggles one bit of it. The result is the return value, the
  channel, the bitmap and the actions.
\<close>

definition ef100_ev_process ::
  "ev_consts \<Rightarrow> ev_env \<Rightarrow> bool \<Rightarrow> (u32 \<Rightarrow> u64) \<Rightarrow> nat \<Rightarrow> efx_channel \<times> (nat \<Rightarrow> bool) \<Rightarrow> int
     \<Rightarrow> (int \<times> efx_channel \<times> (nat \<Rightarrow> bool) \<times> ev_action list) option" where
  "ef100_ev_process c env polled ring fuel st quota =
     (case st of (ch, evq_phases) \<Rightarrow>
        if \<not> enabled ch then Some (0, ch, evq_phases, [])
        else
          (let old_evq_phase = evq_phases (channel ch) in
           case ev_process_loop c env polled ring ch quota fuel 0 old_evq_phase
                  (eventq_read_ptr ch) of
             None \<Rightarrow> None
           | Some (spent, evq_phase, read_ptr, acts) \<Rightarrow>
               Some (if polled then quota else spent,
                     ch\<lparr>eventq_read_ptr := read_ptr\<rparr>,
                     if evq_phase \<noteq> old_evq_phase
                     then evq_phases(channel ch := \<not> evq_phases (channel ch))
                     else evq_phases,
                     acts)))"


text \<open>
  Successive calls on one channel, as the poll routine makes them: each call has its own
  quota and finds the ring as the hardware has filled it by then.
\<close>

fun ev_process_calls ::
  "ev_consts \<Rightarrow> ev_env \<Rightarrow> bool \<Rightarrow> nat \<Rightarrow> ((u32 \<Rightarrow> u64) \<times> int) list
     \<Rightarrow> efx_channel \<times> (nat \<Rightarrow> bool) \<Rightarrow> (efx_channel \<times> (nat \<Rightarrow> bool)) option" where
  "ev_process_calls c env polled fuel [] st = Some st"
| "ev_process_calls c env polled fuel ((ring, quota) # calls) st =
     (case ef100_ev_process c env polled ring fuel st quota of
        None \<Rightarrow> None
      | Some (spent, ch', evq_phases', acts) \<Rightarrow>
          ev_process_calls c env polled fuel calls (ch', evq_phases'))"

section \<open>The capability query\<close>

text \<open>
  The MCDI layout of the \<open>GET_CAPABILITIES\<close> response (minimum length, field offsets,
  the bit number of \<open>TX_TSO_V3\<close>) and the kernel's feature bits are declared outside the
  file: parameters.
\<close>

record caps_consts =
  MC_CMD_GET_CAPABILITIES_V4_OUT_LEN :: nat
  MC_CMD_GET_CAPABILITIES_OUT_FLAGS1_OFST :: nat
  MC_CMD_GET_CAPABILITIES_V2_OUT_FLAGS2_OFST :: nat
  MC_CMD_GET_CAPABILITIES_V3_OUT_VI_WINDOW_MODE_OFST :: nat
  MC_CMD_GET_CAPABILITIES_V4_OUT_MAC_STATS_NUM_STATS_OFST :: nat
  MC_CMD_GET_CAPABILITIES_V4_OUT_TX_TSO_V3_LBN :: nat
  NETIF_F_TSO :: u64
  NETIF_F_TSO6 :: u64

text \<open>The capability state of the device and its net device.\<close>

record caps_nic =
  datapath_caps :: u32
  datapath_caps2 :: u32
  vi_stride :: u32
  features :: u64
  hw_features :: u64
  num_mac_stats :: u16

text \<open>
  What the surroundings answer: \<open>efx_mcdi_rpc\<close> yields a return code, the response
  buffer (byte by offset) and the response length; \<open>efx_mcdi_window_mode_to_stride\<close>
  takes the window mode and the device and yields a return code and the device as it
  leaves it.
\<close>

record caps_env =
  efx_mcdi_rpc_rc :: int
  efx_mcdi_rpc_outbuf :: "nat \<Rightarrow> u8"
  efx_mcdi_rpc_outlen :: nat
  efx_mcdi_window_mode_to_stride :: "u8 \<Rightarrow> caps_nic \<Rightarrow> int \<times> caps_nic"

text \<open>
  Modelled from the spec: the MCDI accessors (a header not at hand) read a byte, a
  little-endian 16-bit word and a little-endian 32-bit word at an offset of the buffer.
\<close>

definition MCDI_BYTE :: "(nat \<Rightarrow> u8) \<Rightarrow> nat \<Rightarrow> u8" where
  "MCDI_BYTE buf ofst = buf ofst"

definition MCDI_WORD :: "(nat \<Rightarrow> u8) \<Rightarrow> nat \<Rightarrow> u16" where
  "MCDI_WORD buf ofst = ucast (buf ofst) OR push_bit 8 (ucast (buf (ofst + 1)))"

definition MCDI_DWORD :: "(nat \<Rightarrow> u8) \<Rightarrow> nat \<Rightarrow> u32" where
  "MCDI_DWORD buf ofst =
     ucast (buf ofst) OR push_bit 8 (ucast (buf (ofst + 1)))
       OR push_bit 16 (ucast (buf (ofst + 2))) OR push_bit 24 (ucast (buf (ofst + 3)))"

text \<open>\<open>efx_ef100_has_cap\<close>: whether bit \<open>lbn\<close> of the 32-bit capability word is set.\<close>

definition efx_ef100_has_cap :: "u32 \<Rightarrow> nat \<Rightarrow> bool" where
  "efx_ef100_has_cap caps lbn \<longleftrightarrow> bit caps lbn"

definition efx_ef100_init_datapath_caps ::
  "caps_consts \<Rightarrow> caps_env \<Rightarrow> caps_nic \<Rightarrow> int \<times> caps_nic" where
  "efx_ef100_init_datapath_caps k env efx =
     (let rc = efx_mcdi_rpc_rc env;
          outbuf = efx_mcdi_rpc_outbuf env;
          outlen = efx_mcdi_rpc_outlen env
      in if rc \<noteq> 0 then (rc, efx)
         else if outlen < MC_CMD_GET_CAPABILITIES_V4_OUT_LEN k then (- EIO, efx)
         else
           (let efx1 = efx\<lparr>datapath_caps :=
                          MCDI_DWORD outbuf (MC_CMD_GET_CAPABILITIES_OUT_FLAGS1_OFST k)\<rparr>;
                efx2 = efx1\<lparr>datapath_caps2 :=
                          MCDI_DWORD outbuf (MC_CMD_GET_CAPABILITIES_V2_OUT_FLAGS2_OFST k)\<rparr>;
                vi_window_mode =
                  MCDI_BYTE outbuf (MC_CMD_GET_CAPABILITIES_V3_OUT_VI_WINDOW_MODE_OFST k)
            in case efx_mcdi_window_mode_to_stride env vi_window_mode efx2 of
                 (rc', efx3) \<Rightarrow>
                   if rc' \<noteq> 0 then (rc', efx3)
                   else
                     (let efx4 =
                            (if efx_ef100_has_cap (datapath_caps2 efx3)
                                  (MC_CMD_GET_CAPABILITIES_V4_OUT_TX_TSO_V3_LBN k)
                             then efx3\<lparr>features :=
                                         features efx3 OR (NETIF_F_TSO k OR NETIF_F_TSO6 k),
                                       hw_features := hw_features efx3 OR NETIF_F_TSO k\<rparr>
                             else efx3)
                      in (0, efx4\<lparr>num_mac_stats :=
                                    MCDI_WORD outbuf
                                      (MC_CMD_GET_CAPABILITIES_V4_OUT_MAC_STATS_NUM_STATS_OFST
                                         k)\<rparr>))))"

section \<open>Reset\<close>

text \<open>
  Modelled from the spec: of the reset types (an enumeration declared in a header not at
  hand) the source names the transmit-watchdog reset, the full reset and the disable
  request; every other one is \<open>RESET_TYPE_OTHER\<close>.
\<close>

datatype reset_type =
  RESET_TYPE_TX_WATCHDOG | RESET_TYPE_ALL | RESET_TYPE_DISABLE | RESET_TYPE_OTHER nat

text \<open>
  The calls a reset makes into the rest of the driver and the kernel, in order. What
  they do there is outside the model; of their results only the return codes are used.
\<close>

datatype reset_call =
  DEV_CLOSE | DEV_OPEN | ATTACH_REPS | NETIF_DEVICE_ATTACH
  | DOWN_WRITE_FILTER_SEM | UP_WRITE_FILTER_SEM
  | MCDI_FILTER_ADD_VLAN u16 | MCDI_FILTER_DEL_VLAN u16 | MCDI_FILTER_TABLE_DOWN
  | MCDI_RESET reset_type

text \<open>
  What the surroundings answer and provide: the return codes of \<open>efx_mcdi_reset\<close>, of
  \<open>efx_mcdi_filter_add_vlan\<close> (by VLAN id) and of \<open>dev_open\<close>, the clock \<open>jiffies\<close>,
  the constant \<open>EFX_FILTER_VID_UNSPEC\<close>, and whether \<open>attach_reps\<close> is compiled in and
  set in the device type.
\<close>

record reset_env =
  efx_mcdi_reset_rc :: int
  efx_mcdi_filter_add_vlan_rc :: "u16 \<Rightarrow> int"
  dev_open_rc :: int
  jiffies :: nat
  EFX_FILTER_VID_UNSPEC :: u16
  has_attach_reps :: bool

record reset_nic =
  rst_state :: nic_state
  reset_pending :: "reset_type set"
  last_reset :: nat
  filters_up :: bool
  calls :: "reset_call list"

definition do_call :: "reset_call \<Rightarrow> reset_nic \<Rightarrow> reset_nic" where
  "do_call x efx = efx\<lparr>calls := calls efx @ [x]\<rparr>"

text \<open>The calls that tear the filter table down, if it was up.\<close>

definition teardown_calls :: "reset_env \<Rightarrow> bool \<Rightarrow> reset_call list" where
  "teardown_calls env was_up =
     (if was_up
      then [MCDI_FILTER_DEL_VLAN 0, MCDI_FILTER_DEL_VLAN (EFX_FILTER_VID_UNSPEC env),
            MCDI_FILTER_TABLE_DOWN]
      else [])"

definition ef100_filter_table_up :: "reset_env \<Rightarrow> reset_nic \<Rightarrow> int \<times> reset_nic" where
  "ef100_filter_table_up env efx =
     (if filters_up efx then (0, efx)
      else
        (let rc = efx_mcdi_filter_add_vlan_rc env (EFX_FILTER_VID_UNSPEC env);
             efx1 = do_call (MCDI_FILTER_ADD_VLAN (EFX_FILTER_VID_UNSPEC env)) efx
         in if rc \<noteq> 0 then (rc, do_call MCDI_FILTER_TABLE_DOWN efx1)
            else
              (let rc = efx_mcdi_filter_add_vlan_rc env 0;
                   efx2 = do_call (MCDI_FILTER_ADD_VLAN 0) efx1;
                   efx3 = (if rc \<noteq> 0
                           then do_call MCDI_FILTER_TABLE_DOWN
                                  (do_call (MCDI_FILTER_DEL_VLAN (EFX_FILTER_VID_UNSPEC env))
                                     efx2)
                           else efx2)
               in (rc, efx3\<lparr>filters_up := (rc = 0)\<rparr>))))"

definition ef100_filter_table_down :: "reset_env \<Rightarrow> reset_nic \<Rightarrow> reset_nic" where
  "ef100_filter_table_down env efx =
     (if \<not> filters_up efx then efx
      else
        (let efx1 = do_call (MCDI_FILTER_DEL_VLAN 0) efx;
             efx2 = do_call (MCDI_FILTER_DEL_VLAN (EFX_FILTER_VID_UNSPEC env)) efx1;
             efx3 = do_call MCDI_FILTER_TABLE_DOWN efx2
         in efx3\<lparr>filters_up := False\<rparr>))"

definition attach_reps :: "reset_env \<Rightarrow> reset_nic \<Rightarrow> reset_nic" where
  "attach_reps env efx = (if has_attach_reps env then do_call ATTACH_REPS efx else efx)"

definition ef100_reset :: "reset_env \<Rightarrow> reset_nic \<Rightarrow> reset_type \<Rightarrow> int \<times> reset_nic" where
  "ef100_reset env efx reset_type =
     (let efx0 = do_call DEV_CLOSE efx in
      if reset_type = RESET_TYPE_TX_WATCHDOG then
        (let efx1 = attach_reps env efx0;
             efx2 = do_call NETIF_DEVICE_ATTACH efx1;
             efx3 = efx2\<lparr>reset_pending := reset_pending efx2 - {reset_type}\<rparr>;
             efx4 = efx3\<lparr>rst_state := STATE_NET_DOWN\<rparr>
         in (dev_open_rc env, do_call DEV_OPEN efx4))
      else if reset_type = RESET_TYPE_ALL then
        (let efx1 = do_call DOWN_WRITE_FILTER_SEM efx0;
             efx2 = ef100_filter_table_down env efx1;
             efx3 = do_call UP_WRITE_FILTER_SEM efx2;
             rc = efx_mcdi_reset_rc env;
             efx4 = do_call (MCDI_RESET reset_type) efx3
         in if rc \<noteq> 0 then (rc, efx4)
            else
              (let efx5 = efx4\<lparr>last_reset := jiffies env\<rparr>;
                   efx6 = attach_reps env efx5;
                   efx7 = do_call NETIF_DEVICE_ATTACH efx6;
                   efx8 = do_call DOWN_WRITE_FILTER_SEM efx7
               in case ef100_filter_table_up env efx8 of
                    (rc', efx9) \<Rightarrow>
                      (let efx10 = do_call UP_WRITE_FILTER_SEM efx9
                       in if rc' \<noteq> 0 then (rc', efx10)
                          else (dev_open_rc env, do_call DEV_OPEN efx10))))
      else (1, efx0))"

section \<open>Concrete constants and states for the examples\<close>

text \<open>
  An assignment of the design-parameter constants and a state of the limits, at which
  the general theorems are instantiated.
\<close>

definition dp_consts_example :: dp_consts where
  "dp_consts_example =
     \<lparr>ESE_EF100_DP_GZ_PAD = 0,
      ESE_EF100_DP_GZ_PARTIAL_TSTAMP_SUB_NANO_BITS = 1,
      ESE_EF100_DP_GZ_EVQ_UNSOL_CREDIT_SEQ_BITS = 2,
      ESE_EF100_DP_GZ_NMMU_GROUP_SIZE = 3,
      ESE_EF100_DP_GZ_RX_L4_CSUM_PROTOCOLS = 4,
      ESE_EF100_DP_GZ_TSO_MAX_HDR_LEN = 5,
      ESE_EF100_DP_GZ_TSO_MAX_HDR_NUM_SEGS = 6,
      ESE_EF100_DP_GZ_RXQ_SIZE_GRANULARITY = 7,
      ESE_EF100_DP_GZ_TXQ_SIZE_GRANULARITY = 8,
      ESE_EF100_DP_GZ_TSO_MAX_PAYLOAD_LEN = 9,
      ESE_EF100_DP_GZ_TSO_MAX_PAYLOAD_NUM_SEGS = 10,
      ESE_EF100_DP_GZ_TSO_MAX_NUM_FRAMES = 11,
      ESE_EF100_DP_GZ_COMPAT = 12,
      ESE_EF100_DP_GZ_MEM2MEM_MAX_LEN = 13,
      ESE_EF100_DP_GZ_EVQ_TIMER_TICK_NANOS = 14,
      ESE_EF100_DP_GZ_NMMU_PAGE_SIZES = 15,
      ESE_EF100_DP_GZ_VI_STRIDES = 16,
      ESE_EF100_DP_GZ_RX_MAX_RUNT = 17,
      EFX_MIN_DMAQ_SIZE = 512,
      GSO_MAX_SIZE = 65536,
      HAVE_GSO_MAX_SEGS = True\<rparr>"

definition dp_state_example :: dp_state where
  "dp_state_example =
     \<lparr>tso_max_hdr_len = 192, tso_max_payload_len = 65535, tso_max_payload_num_segs = 128,
      tso_max_frames = 8192, gso_max_size = 65536, gso_max_segs = 65535\<rparr>"

text \<open>An assignment of the capability-query constants, a short response and a state.\<close>

definition caps_consts_example :: caps_consts where
  "caps_consts_example =
     \<lparr>MC_CMD_GET_CAPABILITIES_V4_OUT_LEN = 78,
      MC_CMD_GET_CAPABILITIES_OUT_FLAGS1_OFST = 0,
      MC_CMD_GET_CAPABILITIES_V2_OUT_FLAGS2_OFST = 20,
      MC_CMD_GET_CAPABILITIES_V3_OUT_VI_WINDOW_MODE_OFST = 72,
      MC_CMD_GET_CAPABILITIES_V4_OUT_MAC_STATS_NUM_STATS_OFST = 76,
      MC_CMD_GET_CAPABILITIES_V4_OUT_TX_TSO_V3_LBN = 15,
      NETIF_F_TSO = 0x10000,
      NETIF_F_TSO6 = 0x100000\<rparr>"

definition caps_nic_example :: caps_nic where
  "caps_nic_example =
     \<lparr>datapath_caps = 0, datapath_caps2 = 0, vi_stride = 8192, features = 3,
      hw_features = 3, num_mac_stats = 0\<rparr>"

definition caps_env_example :: caps_env where
  "caps_env_example =
     \<lparr>efx_mcdi_rpc_rc = 0,
      efx_mcdi_rpc_outbuf = (\<lambda>i. 0xff),
      efx_mcdi_rpc_outlen = 20,
      efx_mcdi_window_mode_to_stride = (\<lambda>mode efx. (0, efx\<lparr>vi_stride := 16384\<rparr>))\<rparr>"

text \<open>Surroundings in which the firmware reset fails, and a device with its filters up.\<close>

definition reset_env_example :: reset_env where
  "reset_env_example =
     \<lparr>efx_mcdi_reset_rc = - 5, efx_mcdi_filter_add_vlan_rc = (\<lambda>vid. 0), dev_open_rc = 0,
      jiffies = 4295000000, EFX_FILTER_VID_UNSPEC = 0xffff, has_attach_reps = True\<rparr>"

definition reset_nic_example :: reset_nic where
  "reset_nic_example =
     \<lparr>rst_state = STATE_NET_UP, reset_pending = {RESET_TYPE_ALL}, last_reset = 4294000000,
      filters_up = True, calls = []\<rparr>"

definition ev_consts_example :: ev_consts where
  "ev_consts_example =
     \<lparr>ESF_GZ_EV_RXPKTS_PHASE_LBN = 59, ESF_GZ_EV_RXPKTS_PHASE_WIDTH = 1,
      ESF_GZ_E_TYPE_LBN = 60, ESF_GZ_E_TYPE_WIDTH = 4,
      ESE_GZ_EF100_EV_RX_PKTS = 0, ESE_GZ_EF100_EV_MCDI = 2,
      ESE_GZ_EF100_EV_TX_COMPLETION = 1, ESE_GZ_EF100_EV_DRIVER = 5\<rparr>"

text \<open>
  Surroundings in which no MCDI event is claimed by the first handler and the second
  reports two units of work, or its budget if that is less.
\<close>

definition ev_env_example :: ev_env where
  "ev_env_example =
     \<lparr>efx_mcdi_process_event = (\<lambda>ev. False),
      efx_mcdi_port_process_event_common = (\<lambda>ev budget. (True, min budget 2))\<rparr>"



definition ev_channel_example :: efx_channel where
  "ev_channel_example = \<lparr>enabled = True, channel = 0, eventq_read_ptr = 0, eventq_mask = 3\<rparr>"


section \<open>Properties of the TLV decoder\<close>

subsection \<open>Bit-level facts about type and length bytes\<close>

lemma bit_0x80: "bit (0x80 :: u8) n \<longleftrightarrow> n = 7" "bit (0x80 :: u16) n \<longleftrightarrow> n = 7"
   "bit (0x80 :: nat) n \<longleftrightarrow> n = 7"  "bit (0x80 :: int) n \<longleftrightarrow> n = 7"
  using bit_exp_iff [of 7 n, where ?'a = u8] bit_exp_iff [of 7 n, where ?'a = u16] 
    bit_exp_iff [of 7 n, where ?'a = nat]  bit_exp_iff [of 7 n, where ?'a = int] by auto

lemma u16_take_bit:
  fixes t :: u16
  shows "t < 0x80 \<Longrightarrow> take_bit 7 t = t" and "t < 0x8000 \<Longrightarrow> take_bit 15 t = t"
  using less_mask_eq [of t 7] less_mask_eq [of t 15] by (simp_all add: take_bit_eq_mask)

lemma type_short:
  assumes "t < (0x80 :: u16)"
  shows "ucast ((ucast t :: u8) AND 0x7f) = t" and "(ucast t :: u8) AND 0x80 = 0"
proof -
  have m: "(0x7f :: u8) = mask 7" by (simp add: mask_eq_exp_minus_1)
  have t: "take_bit 7 t = t" using assms by (rule u16_take_bit)
  have "ucast ((ucast t :: u8) AND 0x7f) = take_bit 7 t"
    unfolding m by (rule bit_word_eqI) (auto simp: bit_simps)
  then show "ucast ((ucast t :: u8) AND 0x7f) = t" by (simp add: t)
  have "(ucast (take_bit 7 t) :: u8) AND 0x80 = 0"
    by (rule bit_word_eqI) (auto simp: bit_simps bit_0x80)
  then show "(ucast t :: u8) AND 0x80 = 0" by (simp add: t)
qed

lemma type_long:
  assumes "t < (0x8000 :: u16)"
  shows "(ucast (t AND 0x7f) OR 0x80 :: u8) AND 0x80 \<noteq> 0"
    and "(ucast ((ucast (t AND 0x7f) OR 0x80 :: u8) AND 0x7f) :: u16)
           OR push_bit 7 (ucast (ucast (drop_bit 7 t) :: u8)) = t"
proof -
  have m: "(0x7f :: u8) = mask 7" "(0x7f :: u16) = mask 7" by (simp_all add: mask_eq_exp_minus_1)
  have t: "take_bit 15 t = t" using assms by (rule u16_take_bit)
  have "bit ((ucast (t AND 0x7f) OR 0x80 :: u8) AND 0x80) 7"
    by (simp add: bit_simps bit_0x80)
  then show "(ucast (t AND 0x7f) OR 0x80 :: u8) AND 0x80 \<noteq> 0"
    by auto
  have "(ucast ((ucast (t AND 0x7f) OR 0x80 :: u8) AND 0x7f) :: u16)
           OR push_bit 7 (ucast (ucast (drop_bit 7 t) :: u8)) = take_bit 15 t"
  proof (rule bit_word_eqI)
    fix n :: nat
    assume "n < LENGTH(16)"
    show "bit ((ucast ((ucast (t AND 0x7f) OR 0x80 :: u8) AND 0x7f) :: u16)
                 OR push_bit 7 (ucast (ucast (drop_bit 7 t) :: u8))) n = bit (take_bit 15 t) n"
      unfolding m by (cases "n < 7") (auto simp: bit_simps bit_0x80)
  qed
  then show "(ucast ((ucast (t AND 0x7f) OR 0x80 :: u8) AND 0x7f) :: u16)
           OR push_bit 7 (ucast (ucast (drop_bit 7 t) :: u8)) = t" by (simp add: t)
qed

lemma len_byte:
  assumes "n \<le> 8"
  shows "\<not> (of_nat n :: u8) > 8" and "(of_nat n :: u8) = 0 \<longleftrightarrow> n = 0"
    and "(ucast (of_nat n :: u8) :: u32) = of_nat n"
proof -
  have u: "unat (of_nat n :: u8) = n" using assms by (simp add: unat_of_nat take_bit_nat_eq_self)
  show "\<not> (of_nat n :: u8) > 8" using assms u by (simp add: word_less_nat_alt)
  show "(of_nat n :: u8) = 0 \<longleftrightarrow> n = 0" using u by (auto simp: unat_eq_0 [symmetric] simp del: unat_eq_0)
  have "(ucast (of_nat n :: u8) :: u32) = of_nat (unat (of_nat n :: u8))" by simp
  then show "(ucast (of_nat n :: u8) :: u32) = of_nat n" by (simp only: u)
qed

lemma le_value_Cons_or: "le_value (b # bs) = ucast b OR push_bit 8 (le_value bs)"
proof -
  have "(ucast b :: u64) + push_bit 8 (le_value bs) = ucast b OR push_bit 8 (le_value bs)"
    by (rule disjunctive_add) (auto simp: bit_simps dest: bit_imp_le_length)
  then show ?thesis by (simp add: push_bit_eq_mult mult.commute)
qed

lemma tlv_feed_bytes_append:
  "tlv_feed_bytes rd (xs @ ys) =
     (case tlv_feed_bytes rd xs of (rc, rd', es) \<Rightarrow>
        if rc \<noteq> 0 then (rc, rd', es)
        else (case tlv_feed_bytes rd' ys of (rc', rd'', es') \<Rightarrow> (rc', rd'', es @ es')))"
  by (induction xs arbitrary: rd) (auto split: prod.splits)

lemma value_offset_facts:
  assumes "k < n" and "n \<le> 8"
  shows "unat ((of_nat k :: u32) * 8) = 8 * k"
    and "(of_nat k + 1 :: u32) \<ge> of_nat n \<longleftrightarrow> Suc k = n"
proof -
  have "unat ((of_nat k :: u32) * 8) = unat (of_nat (k * 8) :: u32)" by simp
  also have "\<dots> = k * 8" using assms by (simp add: unat_of_nat take_bit_nat_eq_self del: of_nat_mult)
  finally show "unat ((of_nat k :: u32) * 8) = 8 * k" by simp
  have a: "unat (of_nat k + 1 :: u32) = Suc k"
  proof -
    have "(of_nat k + 1 :: u32) = of_nat (Suc k)" by simp
    then show ?thesis using assms by (simp add: unat_of_nat take_bit_nat_eq_self del: of_nat_Suc)
  qed
  have b: "unat (of_nat n :: u32) = n" using assms by (simp add: unat_of_nat take_bit_nat_eq_self)
  show "(of_nat k + 1 :: u32) \<ge> of_nat n \<longleftrightarrow> Suc k = n"
    using assms by (auto simp: word_le_nat_alt a b)
qed

lemma value_phase:
  assumes "tlv_state rd = EF100_TLV_VALUE" and "tlv_len rd = of_nat n" and "n \<le> 8"
    and "tlv_value_offset rd = of_nat k" and "k + length bs = n" and "bs \<noteq> []"
  shows "\<exists>rd'. tlv_feed_bytes rd bs =
            (0, rd', [(tlv_type rd, tlv_value rd OR push_bit (8 * k) (le_value bs))])
          \<and> tlv_state rd' = EF100_TLV_TYPE"
  using assms
proof (induction bs arbitrary: rd k)
  case Nil
  then show ?case by simp
next
  case (Cons b bs)
  have kn: "k < n" using Cons.prems by simp
  note vo = value_offset_facts [OF kn \<open>n \<le> 8\<close>]
  have lb: "(ucast (of_nat n :: u8) :: u32) = of_nat n" using \<open>n \<le> 8\<close> by (rule len_byte)
  define v where "v = tlv_value rd OR push_bit (8 * k) (ucast b)"
  define rd1 where "rd1 = rd\<lparr>tlv_value := v, tlv_value_offset := of_nat k + 1\<rparr>"
  show ?case
  proof (cases "bs = []")
    case True
    then have "Suc k = n" using Cons.prems by simp
    then have "ef100_tlv_feed rd b = (0, rd1\<lparr>tlv_state := EF100_TLV_TYPE\<rparr>)"
      using Cons.prems(1,2,4) vo lb by (simp add: rd1_def v_def Let_def)
    then show ?thesis using True by (simp add: rd1_def v_def)
  next
    case False
    then have "Suc k \<noteq> n" using Cons.prems by auto
    then have f: "ef100_tlv_feed rd b = (0, rd1)"
      using Cons.prems(1,2,4) vo lb by (simp add: rd1_def v_def Let_def)
    have "\<exists>rd'. tlv_feed_bytes rd1 bs =
            (0, rd', [(tlv_type rd1, tlv_value rd1 OR push_bit (8 * Suc k) (le_value bs))])
          \<and> tlv_state rd' = EF100_TLV_TYPE"
      using Cons.prems False by (intro Cons.IH) (simp_all add: rd1_def)
    then obtain rd' where r: "tlv_feed_bytes rd1 bs =
            (0, rd', [(tlv_type rd, v OR push_bit (8 * Suc k) (le_value bs))])"
        and s: "tlv_state rd' = EF100_TLV_TYPE"
      by (auto simp: rd1_def)
    have v: "v OR push_bit (8 * Suc k) (le_value bs)
               = tlv_value rd OR push_bit (8 * k) (le_value (b # bs))"
      by (simp only: le_value_Cons_or v_def push_bit_or push_bit_push_bit or.assoc)
         (simp add: add.commute)
    have "tlv_state rd1 = EF100_TLV_VALUE" using Cons.prems(1) by (simp add: rd1_def)
    then show ?thesis using f r s v by simp
  qed
qed

lemma feed_one_triple:
  assumes "tlv_wf t" and "tlv_state rd = EF100_TLV_TYPE"
  shows "\<exists>rd'. tlv_feed_bytes rd (tlv_encode t) = (0, rd', [tlv_decoded t])
          \<and> tlv_state rd' = EF100_TLV_TYPE"
proof -
  define n where "n = length (t_bytes t)"
  have n8: "n \<le> 8" using assms(1) by (simp add: tlv_wf_def n_def)
  define tb where "tb = (if t_cont t
      then [ucast (t_type t AND 0x7f) OR 0x80, ucast (drop_bit 7 (t_type t))]
      else [ucast (t_type t) :: u8])"
  define rdL where "rdL = rd\<lparr>tlv_type := t_type t, tlv_state := EF100_TLV_LENGTH,
                              tlv_value := 0, tlv_value_offset := 0\<rparr>"
  have enc: "tlv_encode t = tb @ of_nat n # t_bytes t"
    by (simp add: tlv_encode_def tb_def n_def)
  have ty: "tlv_feed_bytes rd tb = (0, rdL, [])"
  proof (cases "t_cont t")
    case True
    then have "t_type t < 0x8000" using assms(1) by (simp add: tlv_wf_def)
    from type_long [OF this] True assms(2) show ?thesis
      by (simp add: tb_def rdL_def)
  next
    case False
    then have "t_type t < 0x80" using assms(1) by (simp add: tlv_wf_def)
    from type_short [OF this] False assms(2) show ?thesis
      by (simp add: tb_def rdL_def)
  qed
  have "\<exists>rd'. tlv_feed_bytes rdL (of_nat n # t_bytes t) = (0, rd', [tlv_decoded t])
          \<and> tlv_state rd' = EF100_TLV_TYPE"
  proof (cases "t_bytes t = []")
    case True
    then show ?thesis by (simp add: rdL_def n_def tlv_decoded_def Let_def)
  next
    case False
    then have n0: "n \<noteq> 0" by (simp add: n_def)
    define rdV where "rdV = rdL\<lparr>tlv_len := of_nat n, tlv_state := EF100_TLV_VALUE\<rparr>"
    have f: "ef100_tlv_feed rdL (of_nat n) = (0, rdV)"
      using len_byte [OF n8] n0 by (simp add: rdL_def rdV_def Let_def)
    have "\<exists>rd'. tlv_feed_bytes rdV (t_bytes t) =
            (0, rd', [(tlv_type rdV, tlv_value rdV OR push_bit (8 * 0) (le_value (t_bytes t)))])
          \<and> tlv_state rd' = EF100_TLV_TYPE"
      using n8 False by (intro value_phase [where n = n]) (simp_all add: rdV_def rdL_def n_def)
    then obtain rd' where "tlv_feed_bytes rdV (t_bytes t) = (0, rd', [tlv_decoded t])"
        and "tlv_state rd' = EF100_TLV_TYPE"
      by (auto simp: rdV_def rdL_def tlv_decoded_def)
    then show ?thesis using f by (simp add: rdV_def)
  qed
  then show ?thesis using ty by (auto simp: enc tlv_feed_bytes_append)
qed

lemma feed_triples:
  assumes "\<forall>t \<in> set ts. tlv_wf t" and "tlv_state rd = EF100_TLV_TYPE"
  shows "\<exists>rd'. tlv_feed_bytes rd (concat (map tlv_encode ts)) = (0, rd', map tlv_decoded ts)
          \<and> tlv_state rd' = EF100_TLV_TYPE"
  using assms
proof (induction ts arbitrary: rd)
  case Nil
  then show ?case by simp
next
  case (Cons t ts)
  from feed_one_triple [of t rd] Cons.prems obtain rd1 where
    a: "tlv_feed_bytes rd (tlv_encode t) = (0, rd1, [tlv_decoded t])"
    and b: "tlv_state rd1 = EF100_TLV_TYPE" by auto
  from Cons.IH [OF _ b] Cons.prems(1) obtain rd' where
    c: "tlv_feed_bytes rd1 (concat (map tlv_encode ts)) = (0, rd', map tlv_decoded ts)"
    and d: "tlv_state rd' = EF100_TLV_TYPE" by auto
  show ?case using a c d by (simp add: tlv_feed_bytes_append)
qed

subsection \<open>Round trip\<close>

text \<open>
  C1. Fed byte by byte from a reader in the \<open>EF100_TLV_TYPE\<close> state, the encoding of any
  sequence of well-formed triples (each with at most 8 value bytes) makes every feed
  return 0 and emits exactly the encoded \<open>(type, value)\<close> pairs, in order; a triple of
  length zero is emitted with value 0. The bytes \<open>05 02 34 12\<close> emit the single pair
  \<open>(5, 0x1234)\<close>; the bytes \<open>85 01 00\<close> emit the single pair \<open>(0x85, 0)\<close>, and
  are consumed in the states \<open>TYPE\<close>, \<open>TYPE_CONT\<close>, \<open>LENGTH\<close>: none in \<open>VALUE\<close>.
\<close>

theorem tlv_feed_roundtrip:
  "(\<forall>ts rd. (\<forall>t \<in> set ts. tlv_wf t) \<longrightarrow> tlv_state rd = EF100_TLV_TYPE \<longrightarrow>
      fst (tlv_feed_bytes rd (concat (map tlv_encode ts))) = 0
      \<and> snd (snd (tlv_feed_bytes rd (concat (map tlv_encode ts)))) = map tlv_decoded ts)
   \<and> (\<forall>t rd. tlv_wf t \<longrightarrow> t_bytes t = [] \<longrightarrow> tlv_state rd = EF100_TLV_TYPE \<longrightarrow>
      snd (snd (tlv_feed_bytes rd (tlv_encode t))) = [(t_type t, 0)])
   \<and> fst (tlv_feed_bytes tlv_reader_init [0x05, 0x02, 0x34, 0x12]) = 0
   \<and> snd (snd (tlv_feed_bytes tlv_reader_init [0x05, 0x02, 0x34, 0x12])) = [(5, 0x1234)]
   \<and> fst (tlv_feed_bytes tlv_reader_init [0x85, 0x01, 0x00]) = 0
   \<and> snd (snd (tlv_feed_bytes tlv_reader_init [0x85, 0x01, 0x00])) = [(0x85, 0)]
   \<and> tlv_feed_states tlv_reader_init [0x85, 0x01, 0x00]
        = [EF100_TLV_TYPE, EF100_TLV_TYPE_CONT, EF100_TLV_LENGTH]"
proof (intro conjI allI impI)
  fix ts :: "tlv_triple list" and rd :: ef100_tlv_state
  assume "\<forall>t \<in> set ts. tlv_wf t" and "tlv_state rd = EF100_TLV_TYPE"
  from feed_triples [OF this] obtain rd' where
    r: "tlv_feed_bytes rd (concat (map tlv_encode ts)) = (0, rd', map tlv_decoded ts)"
    by blast
  show "fst (tlv_feed_bytes rd (concat (map tlv_encode ts))) = 0"
    by (simp add: r)
  show "snd (snd (tlv_feed_bytes rd (concat (map tlv_encode ts)))) = map tlv_decoded ts"
    by (simp add: r)
next
  fix t :: tlv_triple and rd :: ef100_tlv_state
  assume "tlv_wf t" and e: "t_bytes t = []" and "tlv_state rd = EF100_TLV_TYPE"
  from feed_one_triple [OF this(1,3)] obtain rd' where
    "tlv_feed_bytes rd (tlv_encode t) = (0, rd', [tlv_decoded t])" by blast
  then show "snd (snd (tlv_feed_bytes rd (tlv_encode t))) = [(t_type t, 0)]"
    by (simp add: tlv_decoded_def e)
qed (simp_all add: tlv_reader_init_def Let_def word_le_nat_alt)

theorem tlv_feed_roundtrip_witness:
  "tlv_wf \<lparr>t_type = 5, t_cont = False, t_bytes = [0x34, 0x12]\<rparr>
   \<and> tlv_wf \<lparr>t_type = 0x85, t_cont = True, t_bytes = []\<rparr>
   \<and> tlv_state tlv_reader_init = EF100_TLV_TYPE
   \<and> concat (map tlv_encode [\<lparr>t_type = 5, t_cont = False, t_bytes = [0x34, 0x12]\<rparr>,
                               \<lparr>t_type = 0x85, t_cont = True, t_bytes = []\<rparr>])
        = [0x05, 0x02, 0x34, 0x12, 0x85, 0x01, 0x00]
   \<and> fst (tlv_feed_bytes tlv_reader_init [0x05, 0x02, 0x34, 0x12, 0x85, 0x01, 0x00]) = 0
   \<and> snd (snd (tlv_feed_bytes tlv_reader_init [0x05, 0x02, 0x34, 0x12, 0x85, 0x01, 0x00]))
        = [(5, 0x1234), (0x85, 0)]"
proof -
  let ?ts = "[\<lparr>t_type = 5, t_cont = False, t_bytes = [0x34, 0x12]\<rparr>,
              \<lparr>t_type = 0x85, t_cont = True, t_bytes = []\<rparr>]"
  have wf: "\<forall>t \<in> set ?ts. tlv_wf t" by (simp add: tlv_wf_def)
  have st: "tlv_state tlv_reader_init = EF100_TLV_TYPE" by (simp add: tlv_reader_init_def)
  have enc: "concat (map tlv_encode ?ts) = [0x05, 0x02, 0x34, 0x12, 0x85, 0x01, 0x00]"
    by (simp add: tlv_encode_def)
  have dec: "map tlv_decoded ?ts = [(5, 0x1234), (0x85, 0)]"
    by (simp add: tlv_decoded_def)
  from tlv_feed_roundtrip have
    "fst (tlv_feed_bytes tlv_reader_init (concat (map tlv_encode ?ts))) = 0
     \<and> snd (snd (tlv_feed_bytes tlv_reader_init (concat (map tlv_encode ?ts))))
         = map tlv_decoded ?ts"
    using wf st by blast
  then show ?thesis using wf st enc dec by simp
qed

subsection \<open>Over-long values\<close>

text \<open>
  C6. In every reader state reached by feeding bytes from the initial state without an
  error, if the reader is in the \<open>EF100_TLV_LENGTH\<close> state then a byte above 8 makes
  \<open>ef100_tlv_feed\<close> return \<open>-EOPNOTSUPP\<close>, whatever type bytes came before; the byte
  loop then ends with that return code.
\<close>

theorem tlv_feed_length_unsupported:
  assumes "tlv_feed_bytes tlv_reader_init bs = (0, rd, es)"
    and "tlv_state rd = EF100_TLV_LENGTH" and "8 < b"
  shows "fst (ef100_tlv_feed rd b) = - EOPNOTSUPP
       \<and> fst (tlv_feed_bytes tlv_reader_init (bs @ [b])) = - EOPNOTSUPP"
proof
  show f: "fst (ef100_tlv_feed rd b) = - EOPNOTSUPP"
    using assms(2,3) by (simp add: Let_def)
  obtain rc rd' where r: "ef100_tlv_feed rd b = (rc, rd')"
    by (cases "ef100_tlv_feed rd b")
  with f have "rc = - EOPNOTSUPP" by simp
  then have "rc \<noteq> 0" by (simp add: EOPNOTSUPP_def)
  then have "tlv_feed_bytes rd [b] = (rc, rd', [])"
    using r by (simp del: ef100_tlv_feed.simps)
  then show "fst (tlv_feed_bytes tlv_reader_init (bs @ [b])) = - EOPNOTSUPP"
    using assms(1) \<open>rc = - EOPNOTSUPP\<close> by (simp add: tlv_feed_bytes_append)
qed

theorem tlv_feed_length_unsupported_witness:
  "tlv_feed_bytes tlv_reader_init [0x85, 0x01]
     = (0, \<lparr>tlv_state = EF100_TLV_LENGTH, tlv_value = 0, tlv_value_offset = 0,
            tlv_type = 0x85, tlv_len = 0\<rparr>, [])
   \<and> (8 :: u8) < 9
   \<and> fst (ef100_tlv_feed \<lparr>tlv_state = EF100_TLV_LENGTH, tlv_value = 0, tlv_value_offset = 0,
            tlv_type = 0x85, tlv_len = 0\<rparr> 9) = - EOPNOTSUPP
   \<and> fst (tlv_feed_bytes tlv_reader_init ([0x85, 0x01] @ [9])) = - EOPNOTSUPP"
proof -
  let ?rd = "\<lparr>tlv_state = EF100_TLV_LENGTH, tlv_value = 0, tlv_value_offset = 0,
            tlv_type = 0x85, tlv_len = 0\<rparr>"
  have a: "tlv_feed_bytes tlv_reader_init [0x85, 0x01] = (0, ?rd, [])"
    by (simp add: tlv_reader_init_def)
  have b: "tlv_state ?rd = EF100_TLV_LENGTH" by simp
  have c: "(8 :: u8) < 9" by simp
  from tlv_feed_length_unsupported [OF a b c] a c show ?thesis by blast
qed

section \<open>Properties of reboot detection\<close>

lemma boot_count_conv:
  fixes x :: u16
  shows "uint x = uint (w :: u32) \<longleftrightarrow> ucast x = w" and "(word_of_int (uint x) :: u32) = ucast x"
proof -
  have a: "uint (ucast x :: u32) = uint x"
    by (rule uint_up_ucast) (simp add: is_up)
  show "uint x = uint w \<longleftrightarrow> ucast x = w"
    by (metis a word_uint_eq_iff)
  show "(word_of_int (uint x) :: u32) = ucast x" by simp
qed

text \<open>
  C4. With a status word that is not all-ones and carries the magic \<open>0xb007\<close>,
  \<open>ef100_mcdi_poll_reboot\<close> returns 0 and changes nothing when the boot count read
  equals the stored \<open>warm_boot_count\<close>; when it differs, the call returns \<open>-EIO\<close>
  (a reboot is reported) and stores the count read, so that every later call that reads
  the same count returns 0. A nonzero result arises in no other way: a reboot is
  reported exactly when a valid status word carries a count different from the stored
  one.
\<close>

theorem ef100_mcdi_poll_reboot_once:
  "(reg \<noteq> 0xffffffff \<longrightarrow> (ucast (drop_bit 16 reg) :: u16) = 0xb007 \<longrightarrow>
      ucast (ucast reg :: u16) = warm_boot_count efx \<longrightarrow>
      ef100_mcdi_poll_reboot reg efx = (0, efx))
   \<and> (reg \<noteq> 0xffffffff \<longrightarrow> (ucast (drop_bit 16 reg) :: u16) = 0xb007 \<longrightarrow>
      ucast (ucast reg :: u16) \<noteq> warm_boot_count efx \<longrightarrow>
      ef100_mcdi_poll_reboot reg efx
        = (- EIO, efx\<lparr>warm_boot_count := ucast (ucast reg :: u16)\<rparr>)
      \<and> (\<forall>reg'. reg' \<noteq> 0xffffffff \<longrightarrow> (ucast (drop_bit 16 reg') :: u16) = 0xb007 \<longrightarrow>
             (ucast reg' :: u16) = ucast reg \<longrightarrow>
             ef100_mcdi_poll_reboot reg' (snd (ef100_mcdi_poll_reboot reg efx))
               = (0, snd (ef100_mcdi_poll_reboot reg efx))))
   \<and> (fst (ef100_mcdi_poll_reboot reg efx) \<noteq> 0 \<longleftrightarrow>
        reg \<noteq> 0xffffffff \<and> (ucast (drop_bit 16 reg) :: u16) = 0xb007
        \<and> ucast (ucast reg :: u16) \<noteq> warm_boot_count efx)"
  by (auto simp: ef100_mcdi_poll_reboot_def ef100_get_warm_boot_count_def boot_count_conv
       EIO_def ENETDOWN_def)

theorem ef100_mcdi_poll_reboot_once_witness:
  "(0xb0070003 :: u32) \<noteq> 0xffffffff \<and> (ucast (drop_bit 16 (0xb0070003 :: u32)) :: u16) = 0xb007
   \<and> ucast (ucast (0xb0070003 :: u32) :: u16) \<noteq> (2 :: u32)
   \<and> ef100_mcdi_poll_reboot 0xb0070003 \<lparr>efx_state = STATE_NET_UP, warm_boot_count = 2\<rparr>
        = (- EIO, \<lparr>efx_state = STATE_NET_UP, warm_boot_count = 3\<rparr>)
   \<and> ef100_mcdi_poll_reboot 0xb0070003 \<lparr>efx_state = STATE_NET_UP, warm_boot_count = 3\<rparr>
        = (0, \<lparr>efx_state = STATE_NET_UP, warm_boot_count = 3\<rparr>)"
proof -
  let ?efx = "\<lparr>efx_state = STATE_NET_UP, warm_boot_count = 2\<rparr>"
  have a: "(0xb0070003 :: u32) \<noteq> 0xffffffff" by simp
  have b: "(ucast (drop_bit 16 (0xb0070003 :: u32)) :: u16) = 0xb007" by simp
  have c: "ucast (ucast (0xb0070003 :: u32) :: u16) = (3 :: u32)" by simp
  have d: "ucast (ucast (0xb0070003 :: u32) :: u16) \<noteq> warm_boot_count ?efx" by simp
  from ef100_mcdi_poll_reboot_once [of "0xb0070003" ?efx] a b d
  have e: "ef100_mcdi_poll_reboot 0xb0070003 ?efx
        = (- EIO, ?efx\<lparr>warm_boot_count := ucast (ucast (0xb0070003 :: u32) :: u16)\<rparr>)"
    and f: "ef100_mcdi_poll_reboot 0xb0070003 (snd (ef100_mcdi_poll_reboot 0xb0070003 ?efx))
               = (0, snd (ef100_mcdi_poll_reboot 0xb0070003 ?efx))"
    by blast+
  from e f a b c show ?thesis by simp
qed

text \<open>
  C5, as the spec words it, would have \<open>ef100_mcdi_poll_reboot\<close> report an I/O error,
  different from both "no change" and "rebooted", for a status word without the magic.
  The status word \<open>0x00000001\<close> is not all-ones and has no magic in its upper half, and
  the result is 0, "no change".
\<close>

theorem ef100_mcdi_poll_reboot_bad_magic_counterexample:
  "(1 :: u32) \<noteq> 0xffffffff \<and> (ucast (drop_bit 16 (1 :: u32)) :: u16) \<noteq> 0xb007
   \<and> fst (ef100_mcdi_poll_reboot 1 \<lparr>efx_state = STATE_NET_UP, warm_boot_count = 0\<rparr>) = 0"
  by (simp add: ef100_mcdi_poll_reboot_def ef100_get_warm_boot_count_def EIO_def)

text \<open>
  C5, amended. For a status word that is not all-ones and whose upper half is not
  \<open>0xb007\<close>, \<open>ef100_get_warm_boot_count\<close> returns \<open>-EIO\<close>, and
  \<open>ef100_mcdi_poll_reboot\<close>, which treats every negative result as a reboot still in
  progress, returns 0 and leaves the stored count and the device state as they were.
\<close>

theorem ef100_mcdi_poll_reboot_bad_magic:
  assumes "reg \<noteq> 0xffffffff" and "(ucast (drop_bit 16 reg) :: u16) \<noteq> 0xb007"
  shows "ef100_get_warm_boot_count reg efx = (- EIO, efx)
       \<and> ef100_mcdi_poll_reboot reg efx = (0, efx)"
  using assms
  by (simp add: ef100_mcdi_poll_reboot_def ef100_get_warm_boot_count_def EIO_def)

theorem ef100_mcdi_poll_reboot_bad_magic_witness:
  "(0x12345678 :: u32) \<noteq> 0xffffffff \<and> (ucast (drop_bit 16 (0x12345678 :: u32)) :: u16) \<noteq> 0xb007
   \<and> ef100_get_warm_boot_count 0x12345678 \<lparr>efx_state = STATE_NET_UP, warm_boot_count = 7\<rparr>
        = (- EIO, \<lparr>efx_state = STATE_NET_UP, warm_boot_count = 7\<rparr>)
   \<and> ef100_mcdi_poll_reboot 0x12345678 \<lparr>efx_state = STATE_NET_UP, warm_boot_count = 7\<rparr>
        = (0, \<lparr>efx_state = STATE_NET_UP, warm_boot_count = 7\<rparr>)"
proof -
  have a: "(0x12345678 :: u32) \<noteq> 0xffffffff" by simp
  have b: "(ucast (drop_bit 16 (0x12345678 :: u32)) :: u16) \<noteq> 0xb007" by simp
  from ef100_mcdi_poll_reboot_bad_magic [OF a b] a b show ?thesis by blast
qed

section \<open>Properties of the capability query\<close>

text \<open>
  C8. When the response of the capability query is shorter than
  \<open>MC_CMD_GET_CAPABILITIES_V4_OUT_LEN\<close>, \<open>efx_ef100_init_datapath_caps\<close> leaves the
  whole capability state (both capability words, the stride, the feature flags, the
  number of MAC statistics) as it was, and returns \<open>-EIO\<close>, unless the query itself
  failed, in which case it returns the query's own error.
\<close>

theorem efx_ef100_init_datapath_caps_short:
  assumes "efx_mcdi_rpc_outlen env < MC_CMD_GET_CAPABILITIES_V4_OUT_LEN k"
  shows "snd (efx_ef100_init_datapath_caps k env efx) = efx
       \<and> fst (efx_ef100_init_datapath_caps k env efx)
           = (if efx_mcdi_rpc_rc env = 0 then - EIO else efx_mcdi_rpc_rc env)"
  using assms by (simp add: efx_ef100_init_datapath_caps_def Let_def)

theorem efx_ef100_init_datapath_caps_short_witness:
  "efx_mcdi_rpc_outlen caps_env_example < MC_CMD_GET_CAPABILITIES_V4_OUT_LEN caps_consts_example
   \<and> efx_mcdi_rpc_rc caps_env_example = 0
   \<and> efx_ef100_init_datapath_caps caps_consts_example caps_env_example caps_nic_example
        = (- EIO, caps_nic_example)"
proof -
  have a: "efx_mcdi_rpc_outlen caps_env_example
             < MC_CMD_GET_CAPABILITIES_V4_OUT_LEN caps_consts_example"
    by (simp add: caps_env_example_def caps_consts_example_def)
  have b: "efx_mcdi_rpc_rc caps_env_example = 0" by (simp add: caps_env_example_def)
  from efx_ef100_init_datapath_caps_short [OF a, of caps_nic_example] a b show ?thesis
    by (simp add: prod_eq_iff)
qed

section \<open>Properties of the design-parameter interpreter\<close>

lemma granularity_test:
  fixes v m :: u64
  assumes "m < 2 ^ 32"
  shows "(v = 0 \<or> v > m \<or> m mod ucast (ucast v :: u32) \<noteq> 0)
         \<longleftrightarrow> (v = 0 \<or> v > m \<or> \<not> unat v dvd unat m)"
proof (cases "v = 0 \<or> v > m")
  case True
  then show ?thesis by blast
next
  case False
  then have "v \<le> m" by (simp add: not_less)
  then have "v < 2 ^ 32" using assms by simp
  then have "take_bit 32 v = v" using less_mask_eq [of v 32] by (simp add: take_bit_eq_mask)
  moreover have "(ucast (ucast v :: u32) :: u64) = take_bit 32 v"
    by (rule bit_word_eqI) (auto simp: bit_simps)
  ultimately have t: "(ucast (ucast v :: u32) :: u64) = v" by simp
  have "m mod v \<noteq> 0 \<longleftrightarrow> \<not> unat v dvd unat m"
    by (simp add: unat_eq_0 [symmetric] unat_mod dvd_eq_mod_eq_0 del: unat_eq_0)
  then show ?thesis using False by (simp add: t)
qed

lemma distinct_nth_notin_take:
  assumes "distinct xs" and "i < length xs"
  shows "xs ! i \<notin> set (take i xs)"
proof -
  have "xs = take i xs @ xs ! i # drop (Suc i) xs"
    using assms(2) by (rule id_take_nth_drop)
  then have "distinct (take i xs @ xs ! i # drop (Suc i) xs)"
    using assms(1) by simp
  then show ?thesis by simp
qed

lemma dp_param_compat:
  assumes "distinct (dp_case_labels c)"
    and "uint (tlv_type reader) = ESE_EF100_DP_GZ_COMPAT c"
  shows "ef100_process_design_param c nic reader =
           (if tlv_value reader \<noteq> 0 then (- EOPNOTSUPP, nic) else (0, nic))"
proof -
  have "ESE_EF100_DP_GZ_COMPAT c \<notin> set (take 12 (dp_case_labels c))"
    using distinct_nth_notin_take [OF assms(1), of 12] by (simp add: dp_case_labels_def)
  then show ?thesis using assms(2)
    by (simp add: ef100_process_design_param_def Let_def dp_case_labels_def)
qed

lemma dp_param_hdr_num_segs:
  assumes "distinct (dp_case_labels c)"
    and "uint (tlv_type reader) = ESE_EF100_DP_GZ_TSO_MAX_HDR_NUM_SEGS c"
  shows "ef100_process_design_param c nic reader =
           (if tlv_value reader = 0 then (- EOPNOTSUPP, nic) else (0, nic))"
proof -
  have "ESE_EF100_DP_GZ_TSO_MAX_HDR_NUM_SEGS c \<notin> set (take 6 (dp_case_labels c))"
    using distinct_nth_notin_take [OF assms(1), of 6] by (simp add: dp_case_labels_def)
  then show ?thesis using assms(2)
    by (simp add: ef100_process_design_param_def Let_def dp_case_labels_def)
qed

lemma dp_param_granularity:
  assumes "distinct (dp_case_labels c)"
    and "uint (tlv_type reader) = ESE_EF100_DP_GZ_RXQ_SIZE_GRANULARITY c
         \<or> uint (tlv_type reader) = ESE_EF100_DP_GZ_TXQ_SIZE_GRANULARITY c"
  shows "ef100_process_design_param c nic reader =
           (if tlv_value reader = 0 \<or> tlv_value reader > EFX_MIN_DMAQ_SIZE c
                \<or> EFX_MIN_DMAQ_SIZE c mod ucast (ucast (tlv_value reader) :: u32) \<noteq> 0
            then (- EOPNOTSUPP, nic) else (0, nic))"
proof -
  have "ESE_EF100_DP_GZ_RXQ_SIZE_GRANULARITY c \<notin> set (take 7 (dp_case_labels c))"
    using distinct_nth_notin_take [OF assms(1), of 7] by (simp add: dp_case_labels_def)
  moreover have "ESE_EF100_DP_GZ_TXQ_SIZE_GRANULARITY c \<notin> set (take 8 (dp_case_labels c))"
    using distinct_nth_notin_take [OF assms(1), of 8] by (simp add: dp_case_labels_def)
  ultimately have "ESE_EF100_DP_GZ_RXQ_SIZE_GRANULARITY c \<notin> set (take 7 (dp_case_labels c))"
    and "ESE_EF100_DP_GZ_TXQ_SIZE_GRANULARITY c \<notin> set (take 7 (dp_case_labels c))"
    by (simp_all add: dp_case_labels_def)
  then show ?thesis using assms(2)
    by (auto simp add: ef100_process_design_param_def Let_def dp_case_labels_def
          simp del: word_greater_zero_iff)
qed

lemma dp_param_not_fatal:
  assumes "uint (tlv_type reader) \<notin> set (dp_fatal_labels c)"
  shows "fst (ef100_process_design_param c nic reader) = 0"
  using assms
  by (simp add: ef100_process_design_param_def Let_def dp_fatal_labels_def if_distrib [of fst])

lemma dp_param_unrecognised:
  assumes "uint (tlv_type reader) \<notin> set (dp_case_labels c)"
  shows "ef100_process_design_param c nic reader = (0, nic)"
  using assms
  by (simp add: ef100_process_design_param_def Let_def dp_case_labels_def)

lemma dp_fatal_distinct:
  assumes "distinct (dp_case_labels c)"
  shows "distinct (dp_fatal_labels c)" and "set (dp_fatal_labels c) \<subseteq> set (dp_case_labels c)"
proof -
  have "dp_fatal_labels c = map (\<lambda>i. dp_case_labels c ! i) [6, 7, 8, 12]"
    by (simp add: dp_fatal_labels_def dp_case_labels_def)
  moreover have "distinct (map (\<lambda>i. dp_case_labels c ! i) [6, 7, 8, 12])"
    using assms by (simp add: distinct_map inj_on_def nth_eq_iff_index_eq dp_case_labels_def) 
  ultimately show "distinct (dp_fatal_labels c)" by simp
  show "set (dp_fatal_labels c) \<subseteq> set (dp_case_labels c)"
    by (simp add: dp_fatal_labels_def dp_case_labels_def)
qed

text \<open>
  C7. With the case labels distinct (as C requires) and \<open>EFX_MIN_DMAQ_SIZE\<close> below
  \<open>2^32\<close>, \<open>ef100_process_design_param\<close> returns \<open>-EOPNOTSUPP\<close> exactly for a
  \<open>COMPAT\<close> triple with a nonzero value, a \<open>TSO_MAX_HDR_NUM_SEGS\<close> triple with value 0,
  and an RXQ or TXQ size-granularity triple whose value is zero, larger than
  \<open>EFX_MIN_DMAQ_SIZE\<close> or no divisor of it. Every other result is 0; in particular a
  type outside the recognised set returns 0 and changes nothing.
\<close>

theorem ef100_process_design_param_unsupported:
  assumes "distinct (dp_case_labels c)" and "EFX_MIN_DMAQ_SIZE c < 2 ^ 32"
  shows "(fst (ef100_process_design_param c nic reader) = - EOPNOTSUPP \<longleftrightarrow>
            uint (tlv_type reader) = ESE_EF100_DP_GZ_COMPAT c \<and> tlv_value reader \<noteq> 0
          \<or> uint (tlv_type reader) = ESE_EF100_DP_GZ_TSO_MAX_HDR_NUM_SEGS c
              \<and> tlv_value reader = 0
          \<or> (uint (tlv_type reader) = ESE_EF100_DP_GZ_RXQ_SIZE_GRANULARITY c
               \<or> uint (tlv_type reader) = ESE_EF100_DP_GZ_TXQ_SIZE_GRANULARITY c)
              \<and> (tlv_value reader = 0 \<or> tlv_value reader > EFX_MIN_DMAQ_SIZE c
                   \<or> \<not> unat (tlv_value reader) dvd unat (EFX_MIN_DMAQ_SIZE c)))
       \<and> (fst (ef100_process_design_param c nic reader) \<noteq> - EOPNOTSUPP \<longrightarrow>
            fst (ef100_process_design_param c nic reader) = 0)
       \<and> (uint (tlv_type reader) \<notin> set (dp_case_labels c) \<longrightarrow>
            ef100_process_design_param c nic reader = (0, nic))"
proof -
  let ?ty = "uint (tlv_type reader)"
  let ?r = "ef100_process_design_param c nic reader"
  note g = granularity_test [OF assms(2), of "tlv_value reader"]
  have e: "- EOPNOTSUPP \<noteq> 0" by (simp add: EOPNOTSUPP_def)
  have d: "ESE_EF100_DP_GZ_TSO_MAX_HDR_NUM_SEGS c \<noteq> ESE_EF100_DP_GZ_RXQ_SIZE_GRANULARITY c"
    "ESE_EF100_DP_GZ_TSO_MAX_HDR_NUM_SEGS c \<noteq> ESE_EF100_DP_GZ_TXQ_SIZE_GRANULARITY c"
    "ESE_EF100_DP_GZ_TSO_MAX_HDR_NUM_SEGS c \<noteq> ESE_EF100_DP_GZ_COMPAT c"
    "ESE_EF100_DP_GZ_RXQ_SIZE_GRANULARITY c \<noteq> ESE_EF100_DP_GZ_COMPAT c"
    "ESE_EF100_DP_GZ_TXQ_SIZE_GRANULARITY c \<noteq> ESE_EF100_DP_GZ_COMPAT c"
    using dp_fatal_distinct(1) [OF assms(1)] by (simp_all add: dp_fatal_labels_def)
  have first: "fst ?r = - EOPNOTSUPP \<longleftrightarrow>
            ?ty = ESE_EF100_DP_GZ_COMPAT c \<and> tlv_value reader \<noteq> 0
          \<or> ?ty = ESE_EF100_DP_GZ_TSO_MAX_HDR_NUM_SEGS c \<and> tlv_value reader = 0
          \<or> (?ty = ESE_EF100_DP_GZ_RXQ_SIZE_GRANULARITY c
               \<or> ?ty = ESE_EF100_DP_GZ_TXQ_SIZE_GRANULARITY c)
              \<and> (tlv_value reader = 0 \<or> tlv_value reader > EFX_MIN_DMAQ_SIZE c
                   \<or> \<not> unat (tlv_value reader) dvd unat (EFX_MIN_DMAQ_SIZE c))"
    and second: "fst ?r \<noteq> - EOPNOTSUPP \<longrightarrow> fst ?r = 0"
  proof -
    consider (compat) "?ty = ESE_EF100_DP_GZ_COMPAT c"
      | (segs) "?ty = ESE_EF100_DP_GZ_TSO_MAX_HDR_NUM_SEGS c"
      | (gran) "?ty = ESE_EF100_DP_GZ_RXQ_SIZE_GRANULARITY c
                \<or> ?ty = ESE_EF100_DP_GZ_TXQ_SIZE_GRANULARITY c"
      | (other) "?ty \<notin> set (dp_fatal_labels c)"
      by (auto simp: dp_fatal_labels_def)
    then have "(fst ?r = - EOPNOTSUPP \<longleftrightarrow>
            ?ty = ESE_EF100_DP_GZ_COMPAT c \<and> tlv_value reader \<noteq> 0
          \<or> ?ty = ESE_EF100_DP_GZ_TSO_MAX_HDR_NUM_SEGS c \<and> tlv_value reader = 0
          \<or> (?ty = ESE_EF100_DP_GZ_RXQ_SIZE_GRANULARITY c
               \<or> ?ty = ESE_EF100_DP_GZ_TXQ_SIZE_GRANULARITY c)
              \<and> (tlv_value reader = 0 \<or> tlv_value reader > EFX_MIN_DMAQ_SIZE c
                   \<or> \<not> unat (tlv_value reader) dvd unat (EFX_MIN_DMAQ_SIZE c)))
         \<and> (fst ?r \<noteq> - EOPNOTSUPP \<longrightarrow> fst ?r = 0)"
    proof cases
      case compat
      from dp_param_compat [OF assms(1) compat, of nic] compat d e show ?thesis
        by auto
    next
      case segs
      from dp_param_hdr_num_segs [OF assms(1) segs, of nic] segs d e show ?thesis
        by auto
    next
      case gran
      have "fst ?r = - EOPNOTSUPP \<longleftrightarrow>
              (tlv_value reader = 0 \<or> tlv_value reader > EFX_MIN_DMAQ_SIZE c
                \<or> \<not> unat (tlv_value reader) dvd unat (EFX_MIN_DMAQ_SIZE c))"
        and "fst ?r \<noteq> - EOPNOTSUPP \<longrightarrow> fst ?r = 0"
        using e by (simp_all only: dp_param_granularity [OF assms(1) gran, of nic] g [symmetric]
                     fst_conv if_distrib [of fst] split: if_splits) auto
      then show ?thesis using gran d by auto
    next
      case other
      from dp_param_not_fatal [OF other, of nic] other e show ?thesis
        by (auto simp: dp_fatal_labels_def)
    qed
    then show "fst ?r = - EOPNOTSUPP \<longleftrightarrow>
            ?ty = ESE_EF100_DP_GZ_COMPAT c \<and> tlv_value reader \<noteq> 0
          \<or> ?ty = ESE_EF100_DP_GZ_TSO_MAX_HDR_NUM_SEGS c \<and> tlv_value reader = 0
          \<or> (?ty = ESE_EF100_DP_GZ_RXQ_SIZE_GRANULARITY c
               \<or> ?ty = ESE_EF100_DP_GZ_TXQ_SIZE_GRANULARITY c)
              \<and> (tlv_value reader = 0 \<or> tlv_value reader > EFX_MIN_DMAQ_SIZE c
                   \<or> \<not> unat (tlv_value reader) dvd unat (EFX_MIN_DMAQ_SIZE c))"
      and "fst ?r \<noteq> - EOPNOTSUPP \<longrightarrow> fst ?r = 0" by blast+
  qed
  have third: "?ty \<notin> set (dp_case_labels c) \<longrightarrow> ?r = (0, nic)"
    using dp_param_unrecognised by blast
  from first second third show ?thesis by blast
qed

theorem ef100_process_design_param_unsupported_witness:
  "distinct (dp_case_labels dp_consts_example)
   \<and> EFX_MIN_DMAQ_SIZE dp_consts_example < 2 ^ 32
   \<and> fst (ef100_process_design_param dp_consts_example dp_state_example
             \<lparr>tlv_state = EF100_TLV_TYPE, tlv_value = 1, tlv_value_offset = 1,
              tlv_type = 12, tlv_len = 1\<rparr>) = - EOPNOTSUPP
   \<and> uint (200 :: u16) \<notin> set (dp_case_labels dp_consts_example)
   \<and> ef100_process_design_param dp_consts_example dp_state_example
        \<lparr>tlv_state = EF100_TLV_TYPE, tlv_value = 1, tlv_value_offset = 1,
         tlv_type = 200, tlv_len = 1\<rparr> = (0, dp_state_example)"
proof -
  let ?rd = "\<lparr>tlv_state = EF100_TLV_TYPE, tlv_value = 1, tlv_value_offset = 1,
              tlv_type = 12, tlv_len = 1\<rparr>"
  let ?rd' = "\<lparr>tlv_state = EF100_TLV_TYPE, tlv_value = 1, tlv_value_offset = 1,
              tlv_type = 200, tlv_len = 1\<rparr>"
  have a: "distinct (dp_case_labels dp_consts_example)"
    by (simp add: dp_case_labels_def dp_consts_example_def)
  have b: "EFX_MIN_DMAQ_SIZE dp_consts_example < 2 ^ 32"
    by (simp add: dp_consts_example_def)
  have c: "uint (tlv_type ?rd) = ESE_EF100_DP_GZ_COMPAT dp_consts_example \<and> tlv_value ?rd \<noteq> 0"
    by (simp add: dp_consts_example_def)
  have d: "uint (tlv_type ?rd') \<notin> set (dp_case_labels dp_consts_example)"
    by (simp add: dp_case_labels_def dp_consts_example_def)
  from ef100_process_design_param_unsupported [OF a b, of dp_state_example ?rd] c
  have e: "fst (ef100_process_design_param dp_consts_example dp_state_example ?rd)
             = - EOPNOTSUPP" by blast
  from ef100_process_design_param_unsupported [OF a b, of dp_state_example ?rd'] d
  have f: "ef100_process_design_param dp_consts_example dp_state_example ?rd'
             = (0, dp_state_example)" by blast
  from a b d e f show ?thesis by simp
qed

section \<open>Properties of the reset\<close>

lemma filter_table_down_effect:
  "ef100_filter_table_down env efx =
     efx\<lparr>filters_up := False, calls := calls efx @ teardown_calls env (filters_up efx)\<rparr>"
  by (simp add: ef100_filter_table_down_def teardown_calls_def do_call_def Let_def)

lemma attach_reps_effect:
  "attach_reps env efx =
     efx\<lparr>calls := calls efx @ (if has_attach_reps env then [ATTACH_REPS] else [])\<rparr>"
  by (simp add: attach_reps_def do_call_def)

lemma filter_table_up_effect:
  assumes "\<not> filters_up efx"
  shows "ef100_filter_table_up env efx =
     (let rc1 = efx_mcdi_filter_add_vlan_rc env (EFX_FILTER_VID_UNSPEC env);
          rc2 = efx_mcdi_filter_add_vlan_rc env 0
      in if rc1 \<noteq> 0
         then (rc1, efx\<lparr>calls := calls efx @
                  [MCDI_FILTER_ADD_VLAN (EFX_FILTER_VID_UNSPEC env), MCDI_FILTER_TABLE_DOWN]\<rparr>)
         else if rc2 \<noteq> 0
         then (rc2, efx\<lparr>filters_up := False, calls := calls efx @
                  [MCDI_FILTER_ADD_VLAN (EFX_FILTER_VID_UNSPEC env), MCDI_FILTER_ADD_VLAN 0,
                   MCDI_FILTER_DEL_VLAN (EFX_FILTER_VID_UNSPEC env), MCDI_FILTER_TABLE_DOWN]\<rparr>)
         else (0, efx\<lparr>filters_up := True, calls := calls efx @
                  [MCDI_FILTER_ADD_VLAN (EFX_FILTER_VID_UNSPEC env), MCDI_FILTER_ADD_VLAN 0]\<rparr>))"
  using assms by (simp add: ef100_filter_table_up_def do_call_def Let_def)

text \<open>
  C9. A full reset runs its steps in one order: close the device, tear the filter table
  down under the filter lock, reset the firmware, then (only if that succeeded) record
  the time, re-attach, rebuild the filter table under the lock, and (only if that
  succeeded) reopen the device. When the firmware reset fails, \<open>ef100_reset\<close> returns
  its error right after the reset call: the filter table is left down, the reset time is
  not recorded, and neither the re-attach nor the rebuild nor the reopen is reached. When
  the rebuild fails, its error is returned and the device is not reopened.
\<close>

theorem ef100_reset_all_order:
  "(efx_mcdi_reset_rc env \<noteq> 0 \<longrightarrow>
      ef100_reset env efx RESET_TYPE_ALL =
        (efx_mcdi_reset_rc env,
         efx\<lparr>filters_up := False,
              calls := calls efx @ [DEV_CLOSE, DOWN_WRITE_FILTER_SEM] @ teardown_calls env (filters_up efx)
                        @ [UP_WRITE_FILTER_SEM, MCDI_RESET RESET_TYPE_ALL]\<rparr>))
   \<and> (efx_mcdi_reset_rc env = 0 \<longrightarrow>
        efx_mcdi_filter_add_vlan_rc env (EFX_FILTER_VID_UNSPEC env) \<noteq> 0 \<longrightarrow>
      ef100_reset env efx RESET_TYPE_ALL =
        (efx_mcdi_filter_add_vlan_rc env (EFX_FILTER_VID_UNSPEC env),
         efx\<lparr>last_reset := jiffies env, filters_up := False,
              calls := calls efx @ [DEV_CLOSE, DOWN_WRITE_FILTER_SEM] @ teardown_calls env (filters_up efx)
                        @ [UP_WRITE_FILTER_SEM, MCDI_RESET RESET_TYPE_ALL]
                        @ (if has_attach_reps env then [ATTACH_REPS] else [])
                        @ [NETIF_DEVICE_ATTACH, DOWN_WRITE_FILTER_SEM,
                           MCDI_FILTER_ADD_VLAN (EFX_FILTER_VID_UNSPEC env),
                           MCDI_FILTER_TABLE_DOWN, UP_WRITE_FILTER_SEM]\<rparr>))
   \<and> (efx_mcdi_reset_rc env = 0 \<longrightarrow>
        efx_mcdi_filter_add_vlan_rc env (EFX_FILTER_VID_UNSPEC env) = 0 \<longrightarrow>
        efx_mcdi_filter_add_vlan_rc env 0 \<noteq> 0 \<longrightarrow>
      ef100_reset env efx RESET_TYPE_ALL =
        (efx_mcdi_filter_add_vlan_rc env 0,
         efx\<lparr>last_reset := jiffies env, filters_up := False,
              calls := calls efx @ [DEV_CLOSE, DOWN_WRITE_FILTER_SEM] @ teardown_calls env (filters_up efx)
                        @ [UP_WRITE_FILTER_SEM, MCDI_RESET RESET_TYPE_ALL]
                        @ (if has_attach_reps env then [ATTACH_REPS] else [])
                        @ [NETIF_DEVICE_ATTACH, DOWN_WRITE_FILTER_SEM,
                           MCDI_FILTER_ADD_VLAN (EFX_FILTER_VID_UNSPEC env),
                           MCDI_FILTER_ADD_VLAN 0,
                           MCDI_FILTER_DEL_VLAN (EFX_FILTER_VID_UNSPEC env),
                           MCDI_FILTER_TABLE_DOWN, UP_WRITE_FILTER_SEM]\<rparr>))
   \<and> (efx_mcdi_reset_rc env = 0 \<longrightarrow>
        efx_mcdi_filter_add_vlan_rc env (EFX_FILTER_VID_UNSPEC env) = 0 \<longrightarrow>
        efx_mcdi_filter_add_vlan_rc env 0 = 0 \<longrightarrow>
      ef100_reset env efx RESET_TYPE_ALL =
        (dev_open_rc env,
         efx\<lparr>last_reset := jiffies env, filters_up := True,
              calls := calls efx @ [DEV_CLOSE, DOWN_WRITE_FILTER_SEM] @ teardown_calls env (filters_up efx)
                        @ [UP_WRITE_FILTER_SEM, MCDI_RESET RESET_TYPE_ALL]
                        @ (if has_attach_reps env then [ATTACH_REPS] else [])
                        @ [NETIF_DEVICE_ATTACH, DOWN_WRITE_FILTER_SEM,
                           MCDI_FILTER_ADD_VLAN (EFX_FILTER_VID_UNSPEC env),
                           MCDI_FILTER_ADD_VLAN 0, UP_WRITE_FILTER_SEM, DEV_OPEN]\<rparr>))"
proof -
  define efx3 where "efx3 = efx\<lparr>filters_up := False,
      calls := calls efx @ [DEV_CLOSE, DOWN_WRITE_FILTER_SEM] @ teardown_calls env (filters_up efx)
                 @ [UP_WRITE_FILTER_SEM, MCDI_RESET RESET_TYPE_ALL]\<rparr>"
  define efx8 where "efx8 = efx3\<lparr>last_reset := jiffies env,
      calls := calls efx3 @ (if has_attach_reps env then [ATTACH_REPS] else [])
                 @ [NETIF_DEVICE_ATTACH, DOWN_WRITE_FILTER_SEM]\<rparr>"
  have r: "ef100_reset env efx RESET_TYPE_ALL =
     (if efx_mcdi_reset_rc env \<noteq> 0 then (efx_mcdi_reset_rc env, efx3)
      else case ef100_filter_table_up env efx8 of
             (rc', efx9) \<Rightarrow>
               if rc' \<noteq> 0
               then (rc', efx9\<lparr>calls := calls efx9 @ [UP_WRITE_FILTER_SEM]\<rparr>)
               else (dev_open_rc env,
                     efx9\<lparr>calls := calls efx9 @ [UP_WRITE_FILTER_SEM, DEV_OPEN]\<rparr>))"
    by (simp add: ef100_reset_def Let_def filter_table_down_effect attach_reps_effect
          do_call_def efx3_def efx8_def split: prod.splits)
  have n: "\<not> filters_up efx8" by (simp add: efx8_def efx3_def)
  note u = filter_table_up_effect [OF n, of env]
  show ?thesis
    by (simp add: r u Let_def do_call_def) (simp add: efx8_def efx3_def)
qed

theorem ef100_reset_all_order_witness:
  "efx_mcdi_reset_rc reset_env_example \<noteq> 0
   \<and> ef100_reset reset_env_example reset_nic_example RESET_TYPE_ALL =
       (- 5,
        \<lparr>rst_state = STATE_NET_UP, reset_pending = {RESET_TYPE_ALL}, last_reset = 4294000000,
         filters_up = False,
         calls = [DEV_CLOSE, DOWN_WRITE_FILTER_SEM, MCDI_FILTER_DEL_VLAN 0,
                  MCDI_FILTER_DEL_VLAN 0xffff, MCDI_FILTER_TABLE_DOWN, UP_WRITE_FILTER_SEM,
                  MCDI_RESET RESET_TYPE_ALL]\<rparr>)"
proof -
  have a: "efx_mcdi_reset_rc reset_env_example \<noteq> 0" by (simp add: reset_env_example_def)
  from ef100_reset_all_order [of reset_env_example reset_nic_example] a
  have "ef100_reset reset_env_example reset_nic_example RESET_TYPE_ALL =
        (efx_mcdi_reset_rc reset_env_example,
         reset_nic_example\<lparr>filters_up := False,
              calls := calls reset_nic_example @ [DEV_CLOSE, DOWN_WRITE_FILTER_SEM]
                        @ teardown_calls reset_env_example (filters_up reset_nic_example)
                        @ [UP_WRITE_FILTER_SEM, MCDI_RESET RESET_TYPE_ALL]\<rparr>)"
    by blast
  then show ?thesis using a
    by (simp add: reset_env_example_def reset_nic_example_def teardown_calls_def)
qed

section \<open>Properties of the event-queue dispatcher\<close>




lemma ev_process_loop_stop:
  assumes "\<not> ev_loop_continues c ring ch quota spent evq_phase read_ptr"
  shows "ev_process_loop c env polled ring ch quota fuel spent evq_phase read_ptr
           = Some (spent, evq_phase, read_ptr, [])"
  using assms by (cases fuel) simp_all

lemma ev_process_loop_step:
  assumes "ev_loop_continues c ring ch quota spent evq_phase read_ptr"
  shows "ev_process_loop c env polled ring ch quota (Suc fuel) spent evq_phase read_ptr =
     map_option (\<lambda>(s, ph, rp, as).
         (s, ph, rp,
          (EV_DISPATCH read_ptr (efx_event ring ch read_ptr) evq_phase #
             (if polled \<and> (read_ptr + 1) mod 512 = 0
              then [EVQ_INT_PRIME (channel ch) ((read_ptr + 1) AND eventq_mask ch)]
              else [])) @ as))
       (ev_process_loop c env polled ring ch quota fuel
          (ev_switch c env (efx_event ring ch read_ptr) quota spent)
          (if (read_ptr + 1) AND eventq_mask ch = 0 then \<not> evq_phase else evq_phase)
          (read_ptr + 1))"
  using assms by (simp add: Let_def)

declare ev_process_loop.simps [simp del]





subsection \<open>The read pointer across one lap of the ring\<close>

lemma nat_parity_step:
  fixes n :: nat
  shows "2 ^ k dvd Suc n \<longleftrightarrow> odd (Suc n div 2 ^ k) \<noteq> odd (n div 2 ^ k)"
proof (cases "Suc n mod 2 ^ k = 0")
  case True
  then have "Suc n div 2 ^ k = Suc (n div 2 ^ k)" by (simp only: div_Suc if_True simp_thms)
  moreover have "2 ^ k dvd Suc n" using True by (simp only: dvd_eq_mod_eq_0 simp_thms)
  ultimately show ?thesis by simp
next
  case False
  then have "Suc n div 2 ^ k = n div 2 ^ k" by (simp only: div_Suc if_False simp_thms)
  moreover have "\<not> 2 ^ k dvd Suc n" using False by (simp only: dvd_eq_mod_eq_0 simp_thms)
  ultimately show ?thesis by simp
qed

lemma phase_step:
  fixes rp :: u32
  assumes "k < 32"
  shows "(rp + 1) AND mask k = 0 \<longleftrightarrow> bit (rp + 1) k \<noteq> bit rp k"
proof -
  define n where "n = unat rp"
  have u: "unat (rp + 1) = Suc n mod 2 ^ 32"
    using unat_word_ariths(1) [of rp 1] by (simp add: n_def)
  have d: "(2 :: nat) ^ k dvd 2 ^ 32"
    using assms by (intro le_imp_power_dvd) simp
  have "(rp + 1) AND mask k = 0 \<longleftrightarrow> 2 ^ k dvd unat (rp + 1)"
    by (simp only: and_mask_dvd_nat)
  also have "\<dots> \<longleftrightarrow> 2 ^ k dvd Suc n"
    unfolding u using d by (rule dvd_mod_iff)
  finally have a: "(rp + 1) AND mask k = 0 \<longleftrightarrow> 2 ^ k dvd Suc n" .
  have "bit (rp + 1) k \<longleftrightarrow> bit (unat (rp + 1)) k"
    by (simp add: bit_unsigned_iff)
  also have "\<dots> \<longleftrightarrow> bit (take_bit 32 (Suc n)) k"
    by (simp only: u take_bit_eq_mod)
  also have "\<dots> \<longleftrightarrow> bit (Suc n) k"
    using assms by (simp only: bit_take_bit_iff simp_thms)
  finally have b: "bit (rp + 1) k \<longleftrightarrow> odd (Suc n div 2 ^ k)"
    by (simp only: bit_iff_odd)
  have "bit rp k \<longleftrightarrow> bit n k"
    by (simp add: n_def bit_unsigned_iff)
  then have c: "bit rp k \<longleftrightarrow> odd (n div 2 ^ k)"
    by (simp only: bit_iff_odd)
  show ?thesis
    unfolding a b c by (rule nat_parity_step)
qed

lemma bit_add_lap:
  fixes w :: u32
  assumes "k < 32"
  shows "bit (w + 2 ^ k) k \<longleftrightarrow> \<not> bit w k"
proof -
  define n where "n = unat w"
  have "(2 :: nat) ^ k < 2 ^ 32" using assms by (intro power_strict_increasing) simp_all
  then have "take_bit 32 ((2 :: nat) ^ k) = 2 ^ k" by (simp only: take_bit_nat_eq_self)
  moreover have "unat (of_nat (2 ^ k) :: u32) = take_bit 32 ((2 :: nat) ^ k)"
    by (simp add: unat_of_nat take_bit_eq_mod del: of_nat_power)
  ultimately have p: "unat (2 ^ k :: u32) = 2 ^ k" by simp
  have u: "unat (w + 2 ^ k) = (n + 2 ^ k) mod 2 ^ 32"
    using unat_word_ariths(1) [of w "2 ^ k"] by (simp add: p n_def)
  have "bit (w + 2 ^ k) k \<longleftrightarrow> bit (unat (w + 2 ^ k)) k"
    by (simp add: bit_unsigned_iff)
  also have "\<dots> \<longleftrightarrow> bit (take_bit 32 (n + 2 ^ k)) k"
    by (simp only: u take_bit_eq_mod)
  also have "\<dots> \<longleftrightarrow> bit (n + 2 ^ k) k"
    using assms by (simp only: bit_take_bit_iff simp_thms)
  also have "\<dots> \<longleftrightarrow> odd ((n + 2 ^ k) div 2 ^ k)"
    by (simp only: bit_iff_odd)
  finally have a0: "bit (w + 2 ^ k) k \<longleftrightarrow> odd ((n + 2 ^ k) div 2 ^ k)" .
  have dv: "(n + 2 ^ k) div 2 ^ k = Suc (n div 2 ^ k)"
    using div_add_self2 [of "(2 :: nat) ^ k" n] by simp
  have a: "bit (w + 2 ^ k) k \<longleftrightarrow> \<not> odd (n div 2 ^ k)"
    unfolding a0 dv by simp
  have "bit w k \<longleftrightarrow> bit n k"
    by (simp add: n_def bit_unsigned_iff)
  then have c: "bit w k \<longleftrightarrow> odd (n div 2 ^ k)"
    by (simp only: bit_iff_odd)
  show ?thesis unfolding a c ..
qed

lemma bit_add_two_laps:
  fixes w :: u32
  assumes "k < 32"
  shows "bit (w + 2 * 2 ^ k) k \<longleftrightarrow> bit w k"
proof -
  have "w + 2 * 2 ^ k = (w + 2 ^ k) + 2 ^ k" by simp
  then have "bit (w + 2 * 2 ^ k) k \<longleftrightarrow> bit ((w + 2 ^ k) + 2 ^ k) k" by (simp only:)
  also have "\<dots> \<longleftrightarrow> \<not> bit (w + 2 ^ k) k" using assms by (rule bit_add_lap)
  also have "\<dots> \<longleftrightarrow> bit w k" by (simp only: bit_add_lap [OF assms] simp_thms)
  finally show ?thesis .
qed





lemma ev_example_fields:
  "ev_phase_of ev_consts_example 0x2000000000000000 = False"
  "ev_phase_of ev_consts_example 0 = False"
  "ev_phase_of ev_consts_example 0x1000000000000000 = False"
  "ev_phase_of ev_consts_example 0x0800000000000000 = True"
  "ev_type_of ev_consts_example 0x2000000000000000 = 2"
  "ev_type_of ev_consts_example 0 = 0"
  "ev_type_of ev_consts_example 0x1000000000000000 = 1"
  "ev_type_of ev_consts_example 0x0800000000000000 = 0"
  by (simp_all add: ev_phase_of_def ev_type_of_def EFX_QWORD_FIELD_def ev_consts_example_def)






section \<open>Phase of the event queue across ring laps\<close>

lemma ev_process_loop_phase:
  assumes "eventq_mask ch = mask k" and "k < 32"
    and "ev_process_loop c env polled ring ch quota fuel spent evq_phase read_ptr
           = Some (s', ph', rp', acts)"
  shows "(ph' \<noteq> evq_phase) = (bit rp' k \<noteq> bit read_ptr k)"
  using assms(3)
proof (induction fuel arbitrary: spent evq_phase read_ptr acts)
  case 0
  then show ?case by (simp add: ev_process_loop.simps split: if_splits)
next
  case (Suc fuel)
  show ?case
  proof (cases "ev_loop_continues c ring ch quota spent evq_phase read_ptr")
    case False
    from Suc.prems show ?thesis by (simp add: ev_process_loop_stop [OF False])
  next
    case True
    define ph1 where
      "ph1 = (if (read_ptr + 1) AND eventq_mask ch = 0 then \<not> evq_phase else evq_phase)"
    from Suc.prems obtain as where
      r: "ev_process_loop c env polled ring ch quota fuel
            (ev_switch c env (efx_event ring ch read_ptr) quota spent) ph1
            (read_ptr + 1) = Some (s', ph', rp', as)"
      unfolding ev_process_loop_step [OF True] ph1_def by (auto split: prod.splits)
    have a: "(ph' \<noteq> ph1) = (bit rp' k \<noteq> bit (read_ptr + 1) k)"
      using r by (rule Suc.IH)
    have b: "(ph1 \<noteq> evq_phase) = (bit (read_ptr + 1) k \<noteq> bit read_ptr k)"
      unfolding ph1_def assms(1) using phase_step [OF assms(2), of read_ptr] by simp
    from a b show ?thesis by blast
  qed
qed

lemma ef100_ev_process_phase:
  assumes "eventq_mask ch = mask k" and "k < 32"
    and "ef100_ev_process c env polled ring fuel (ch, evq_phases) quota
           = Some (work, ch', evq_phases', acts)"
  shows "channel ch' = channel ch \<and> eventq_mask ch' = eventq_mask ch
       \<and> (evq_phases' (channel ch) \<noteq> evq_phases (channel ch))
           = (bit (eventq_read_ptr ch') k \<noteq> bit (eventq_read_ptr ch) k)"
proof (cases "enabled ch")
  case False
  with assms(3) show ?thesis by (simp add: ef100_ev_process_def)
next
  case True
  with assms(3) obtain spent ph where
    l: "ev_process_loop c env polled ring ch quota fuel 0 (evq_phases (channel ch))
          (eventq_read_ptr ch) = Some (spent, ph, eventq_read_ptr ch', acts)"
    and c: "ch' = ch\<lparr>eventq_read_ptr := eventq_read_ptr ch'\<rparr>"
    and p: "evq_phases' = (if ph \<noteq> evq_phases (channel ch)
                           then evq_phases(channel ch := \<not> evq_phases (channel ch))
                           else evq_phases)"
    by (auto simp: ef100_ev_process_def Let_def split: option.splits if_splits)
  have e: "channel ch' = channel ch" "eventq_mask ch' = eventq_mask ch"
    by (subst c, simp)+
  have ph: "evq_phases' (channel ch) = ph" by (simp add: p)
  from ev_process_loop_phase [OF assms(1,2) l] e ph show ?thesis by simp
qed

lemma ev_process_calls_phase:
  assumes "eventq_mask ch = mask k" and "k < 32"
    and "ev_process_calls c env polled fuel cs (ch, evq_phases) = Some (ch', evq_phases')"
  shows "channel ch' = channel ch
       \<and> (evq_phases' (channel ch) \<noteq> evq_phases (channel ch))
           = (bit (eventq_read_ptr ch') k \<noteq> bit (eventq_read_ptr ch) k)"
  using assms(1,3)
proof (induction cs arbitrary: ch evq_phases)
  case Nil
  then show ?case by simp
next
  case (Cons cl0 cs)
  obtain ring quota where cl: "cl0 = (ring, quota)" by (cases cl0)
  from Cons.prems(2) obtain work ch1 phs1 acts where
    f: "ef100_ev_process c env polled ring fuel (ch, evq_phases) quota
          = Some (work, ch1, phs1, acts)"
    and r: "ev_process_calls c env polled fuel cs (ch1, phs1) = Some (ch', evq_phases')"
    by (auto simp: cl split: option.splits)
  from ef100_ev_process_phase [OF Cons.prems(1) assms(2) f] have
    c1: "channel ch1 = channel ch" and m1: "eventq_mask ch1 = mask k"
    and p1: "(phs1 (channel ch) \<noteq> evq_phases (channel ch))
           = (bit (eventq_read_ptr ch1) k \<noteq> bit (eventq_read_ptr ch) k)"
    using Cons.prems(1) by simp_all
  from Cons.IH [OF m1 r] c1 have
    "channel ch' = channel ch"
    and "(evq_phases' (channel ch) \<noteq> phs1 (channel ch))
           = (bit (eventq_read_ptr ch') k \<noteq> bit (eventq_read_ptr ch1) k)"
    by simp_all
  with p1 show ?case by blast
qed

lemma ev_lap_run:
  assumes "\<forall>i \<in> {0, 1, 2, 3}. ev_phase_of c (ring i) = p
             \<and> ev_type_of c (ring i) = ESE_GZ_EF100_EV_RX_PKTS c"
    and "evq_phases n = p" and "4 \<le> fuel" and "r = 0 \<or> r = 4"
  shows "ef100_ev_process c env False ring fuel
           (\<lparr>enabled = True, channel = n, eventq_read_ptr = r, eventq_mask = 3\<rparr>,
            evq_phases) 10
         = Some (4, \<lparr>enabled = True, channel = n, eventq_read_ptr = r + 4, eventq_mask = 3\<rparr>,
                 evq_phases(n := \<not> p),
                 [EV_DISPATCH r (ring 0) p, EV_DISPATCH (r + 1) (ring 1) p,
                  EV_DISPATCH (r + 2) (ring 2) p, EV_DISPATCH (r + 3) (ring 3) p])"
proof -
  from assms(3) obtain f where f: "fuel = Suc (Suc (Suc (Suc f)))"
    by (metis Suc_le_D numeral_Bit0 Suc_le_mono add_2_eq_Suc' numeral_2_eq_2)
  from assms(1) have a: "ev_phase_of c (ring 0) = p" "ev_phase_of c (ring 1) = p"
    "ev_phase_of c (ring 2) = p" "ev_phase_of c (ring 3) = p"
    "ev_type_of c (ring 0) = ESE_GZ_EF100_EV_RX_PKTS c"
    "ev_type_of c (ring 1) = ESE_GZ_EF100_EV_RX_PKTS c"
    "ev_type_of c (ring 2) = ESE_GZ_EF100_EV_RX_PKTS c"
    "ev_type_of c (ring 3) = ESE_GZ_EF100_EV_RX_PKTS c"
    by simp_all
  from assms(4) show ?thesis
  proof
    assume "r = 0"
    then show ?thesis
      unfolding f using assms(2)
      by (simp add: ef100_ev_process_def ev_process_loop_step ev_process_loop_stop
            ev_loop_continues_def efx_event_def ev_switch_def a Let_def)
  next
    assume "r = 4"
    then show ?thesis
      unfolding f using assms(2)
      by (simp add: ef100_ev_process_def ev_process_loop_step ev_process_loop_stop
            ev_loop_continues_def efx_event_def ev_switch_def a Let_def)
  qed
qed

text \<open>
  C3. For a ring of \<open>2^k\<close> entries (mask \<open>2^k - 1\<close>, \<open>k < 32\<close>), over any
  sequence of calls of \<open>ef100_ev_process\<close> on a channel, the phase bit stored for
  the channel differs from its starting value exactly when bit \<open>k\<close> of the read
  pointer does, that is, when the masked pointer has wrapped an odd number of times.
  So once the read pointer has advanced by one full ring the stored phase has toggled,
  in one call or over several, and once it has advanced by two full rings the stored
  phase is back at its starting value. Outside polled mode, with mask 3, phase 0 and
  read pointer 0, four ready RX entries and quota 10 (and fuel for four iterations), the
  call returns 4, leaves the read pointer at 4 and the stored phase at 1.
\<close>

theorem ef100_ev_process_phase_wrap:
  "(\<forall>cs ch evq_phases ch' evq_phases'.
      eventq_mask ch = mask k \<longrightarrow> k < 32 \<longrightarrow>
      ev_process_calls c env polled fuel cs (ch, evq_phases) = Some (ch', evq_phases') \<longrightarrow>
        (evq_phases' (channel ch) \<noteq> evq_phases (channel ch))
          = (bit (eventq_read_ptr ch') k \<noteq> bit (eventq_read_ptr ch) k)
        \<and> (eventq_read_ptr ch' = eventq_read_ptr ch + 2 ^ k \<longrightarrow>
             evq_phases' (channel ch) = (\<not> evq_phases (channel ch)))
        \<and> (eventq_read_ptr ch' = eventq_read_ptr ch + 2 * 2 ^ k \<longrightarrow>
             evq_phases' (channel ch) = evq_phases (channel ch)))
   \<and> (\<forall>ring quota ch evq_phases work ch' evq_phases' acts.
      eventq_mask ch = mask k \<longrightarrow> k < 32 \<longrightarrow>
      ef100_ev_process c env polled ring fuel (ch, evq_phases) quota
        = Some (work, ch', evq_phases', acts) \<longrightarrow>
      eventq_read_ptr ch' = eventq_read_ptr ch + 2 ^ k \<longrightarrow>
        evq_phases' (channel ch) = (\<not> evq_phases (channel ch)))
   \<and> (\<forall>ring evq_phases n.
      (\<forall>i \<in> {0, 1, 2, 3}. ev_phase_of c (ring i) = False
          \<and> ev_type_of c (ring i) = ESE_GZ_EF100_EV_RX_PKTS c) \<longrightarrow>
      evq_phases n = False \<longrightarrow> 4 \<le> fuel \<longrightarrow>
      ef100_ev_process c env False ring fuel
        (\<lparr>enabled = True, channel = n, eventq_read_ptr = 0, eventq_mask = 3\<rparr>, evq_phases) 10
      = Some (4, \<lparr>enabled = True, channel = n, eventq_read_ptr = 4, eventq_mask = 3\<rparr>,
              evq_phases(n := True),
              [EV_DISPATCH 0 (ring 0) False, EV_DISPATCH 1 (ring 1) False,
               EV_DISPATCH 2 (ring 2) False, EV_DISPATCH 3 (ring 3) False]))"
proof (intro conjI allI impI)
  fix cs :: "((u32 \<Rightarrow> u64) \<times> int) list" and ch ch' :: efx_channel
    and evq_phases evq_phases' :: "nat \<Rightarrow> bool"
  assume m: "eventq_mask ch = mask k" and k: "k < 32"
    and r: "ev_process_calls c env polled fuel cs (ch, evq_phases) = Some (ch', evq_phases')"
  from ev_process_calls_phase [OF m k r]
  show i: "(evq_phases' (channel ch) \<noteq> evq_phases (channel ch))
          = (bit (eventq_read_ptr ch') k \<noteq> bit (eventq_read_ptr ch) k)"
    by blast
  {
    assume "eventq_read_ptr ch' = eventq_read_ptr ch + 2 ^ k"
    with i bit_add_lap [OF k, of "eventq_read_ptr ch"]
    show "evq_phases' (channel ch) = (\<not> evq_phases (channel ch))" by simp
  }
  {
    assume "eventq_read_ptr ch' = eventq_read_ptr ch + 2 * 2 ^ k"
    with i bit_add_two_laps [OF k, of "eventq_read_ptr ch"]
    show "evq_phases' (channel ch) = evq_phases (channel ch)" by simp
  }
next
  fix ring :: "u32 \<Rightarrow> u64" and quota work :: int and ch ch' :: efx_channel
    and evq_phases evq_phases' :: "nat \<Rightarrow> bool" and acts :: "ev_action list"
  assume m: "eventq_mask ch = mask k" and k: "k < 32"
    and r: "ef100_ev_process c env polled ring fuel (ch, evq_phases) quota
              = Some (work, ch', evq_phases', acts)"
    and a: "eventq_read_ptr ch' = eventq_read_ptr ch + 2 ^ k"
  from ef100_ev_process_phase [OF m k r] a bit_add_lap [OF k, of "eventq_read_ptr ch"]
  show "evq_phases' (channel ch) = (\<not> evq_phases (channel ch))" by simp
next
  fix ring :: "u32 \<Rightarrow> u64" and evq_phases :: "nat \<Rightarrow> bool" and n :: nat
  assume a: "\<forall>i \<in> {0, 1, 2, 3}. ev_phase_of c (ring i) = False
          \<and> ev_type_of c (ring i) = ESE_GZ_EF100_EV_RX_PKTS c"
    and p: "evq_phases n = False" and f: "4 \<le> fuel"
  from a p f
    ev_lap_run [where c = c and ring = ring and p = False and evq_phases = evq_phases
                  and n = n and fuel = fuel and r = 0 and env = env]
  show "ef100_ev_process c env False ring fuel
        (\<lparr>enabled = True, channel = n, eventq_read_ptr = 0, eventq_mask = 3\<rparr>, evq_phases) 10
      = Some (4, \<lparr>enabled = True, channel = n, eventq_read_ptr = 4, eventq_mask = 3\<rparr>,
              evq_phases(n := True),
              [EV_DISPATCH 0 (ring 0) False, EV_DISPATCH 1 (ring 1) False,
               EV_DISPATCH 2 (ring 2) False, EV_DISPATCH 3 (ring 3) False])"
    by simp
qed

theorem ef100_ev_process_phase_wrap_witness:
  "eventq_mask ev_channel_example = mask 2 \<and> (2 :: nat) < 32
   \<and> map_option (\<lambda>(ch, phs). (eventq_read_ptr ch, phs 0))
        (ev_process_calls ev_consts_example ev_env_example False 4
           [(\<lambda>i. 0, 10)] (ev_channel_example, \<lambda>n. False)) = Some (4, True)
   \<and> map_option (\<lambda>(ch, phs). (eventq_read_ptr ch, phs 0))
        (ev_process_calls ev_consts_example ev_env_example False 4
           [(\<lambda>i. 0, 10), (\<lambda>i. 0x0800000000000000, 10)]
           (ev_channel_example, \<lambda>n. False)) = Some (8, False)"
proof -
  let ?c = ev_consts_example and ?env = ev_env_example
  let ?ch4 = "\<lparr>enabled = True, channel = 0, eventq_read_ptr = 4, eventq_mask = 3\<rparr>"
  let ?ch8 = "\<lparr>enabled = True, channel = 0, eventq_read_ptr = 8, eventq_mask = 3\<rparr>"
  let ?phs = "(\<lambda>n :: nat. False)"
  have m: "eventq_mask ev_channel_example = mask 2"
    by (simp add: ev_channel_example_def mask_eq_exp_minus_1)
  have k: "(2 :: nat) < 32" by simp
  have rx: "ESE_GZ_EF100_EV_RX_PKTS ?c = 0" by (simp add: ev_consts_example_def)
  have idem: "?phs(0 := False) = ?phs" by auto
  have l1: "ef100_ev_process ?c ?env False (\<lambda>i. 0) 4 (ev_channel_example, ?phs) 10
              = Some (4, ?ch4, ?phs(0 := True),
                      [EV_DISPATCH 0 0 False, EV_DISPATCH 1 0 False,
                       EV_DISPATCH 2 0 False, EV_DISPATCH 3 0 False])"
    using ev_lap_run [where c = ?c and ring = "\<lambda>i. 0" and p = False and evq_phases = ?phs
                        and n = 0 and fuel = 4 and r = 0 and env = ?env] rx
    by (simp add: ev_example_fields ev_channel_example_def)
  have l2: "ef100_ev_process ?c ?env False (\<lambda>i. 0x0800000000000000) 4
              (?ch4, ?phs(0 := True)) 10
              = Some (4, ?ch8, ?phs,
                      [EV_DISPATCH 4 0x0800000000000000 True,
                       EV_DISPATCH 5 0x0800000000000000 True,
                       EV_DISPATCH 6 0x0800000000000000 True,
                       EV_DISPATCH 7 0x0800000000000000 True])"
    using ev_lap_run [where c = ?c and ring = "\<lambda>i. 0x0800000000000000" and p = True
                        and evq_phases = "?phs(0 := True)" and n = 0 and fuel = 4 and r = 4
                        and env = ?env] rx idem
    by (simp add: ev_example_fields)
  have r1: "ev_process_calls ?c ?env False 4 [(\<lambda>i. 0, 10)] (ev_channel_example, ?phs)
              = Some (?ch4, ?phs(0 := True))"
    by (simp add: l1)
  have r2: "ev_process_calls ?c ?env False 4 [(\<lambda>i. 0, 10), (\<lambda>i. 0x0800000000000000, 10)]
              (ev_channel_example, ?phs) = Some (?ch8, ?phs)"
    by (simp add: l1 l2)
  have p1: "eventq_read_ptr ?ch4 = eventq_read_ptr ev_channel_example + 2 ^ 2"
    by (simp add: ev_channel_example_def)
  have p2: "eventq_read_ptr ?ch8 = eventq_read_ptr ev_channel_example + 2 * 2 ^ 2"
    by (simp add: ev_channel_example_def)
  from ef100_ev_process_phase_wrap [of 2 ?c ?env False 4] m k r1 p1
  have t1: "(?phs(0 := True)) (channel ev_channel_example)
              = (\<not> ?phs (channel ev_channel_example))"
    by blast
  from ef100_ev_process_phase_wrap [of 2 ?c ?env False 4] m k r2 p2
  have t2: "?phs (channel ev_channel_example) = ?phs (channel ev_channel_example)"
    by blast
  from t1 t2 m k show ?thesis unfolding r1 r2 by simp
qed

section \<open>Properties of the design-parameter scan\<close>













end
